theory Spec2Isabelle
  imports Main "HOL-Library.Word"
begin

unbundle bit_operations_syntax

section \<open>Data model\<close>

text \<open>
  The program (main.go) works on the element types of the package osm. Only the parts of
  those types that main.go reads or writes are modelled.
  \<^item> \<open>osm.Tag\<close> is a struct of two strings.
  \<^item> \<open>osm.NodeID\<close>, \<open>osm.UserID\<close>, \<open>osm.ChangesetID\<close> are \<open>int64\<close>; Go's \<open>int\<close> is taken
    as 64 bits wide. All of them are \<open>64 word\<close>, read as two's complement by \<open>sint\<close>.
  \<^item> \<open>Lat\<close> and \<open>Lon\<close> are \<open>float64\<close>. The modelled code only copies them, so they are kept
    as their 64-bit pattern. \<open>Timestamp\<close> is likewise only copied and kept as an integer
    instant. (The bounds that \<open>main\<close> keeps of them are printed only, see section Program
    state.)
  \<^item> \<open>osm.Node\<close> is a record that is polymorphic in the representation of its tag
    sequence: a list of tags where the value of the sequence is all that matters, a slice
    header where the backing array matters (section Store).
\<close>

record Tag =
  Key :: string
  Value :: string

type_synonym NodeID = "64 word"
type_synonym float64 = "64 word"

record 't Node =
  ID :: NodeID
  Lat :: float64
  Lon :: float64
  User :: string
  UserID :: "64 word"
  Visible :: bool
  Version :: "64 word"
  ChangesetID :: "64 word"
  Timestamp :: int
  Tags :: 't
  Committed :: "int option"

type_synonym node = "Tag list Node"

text \<open>
  \<open>osm.Way\<close>: of a way, main.go reads the identifier and the version (for the
  statistics), the identifiers of its node references (\<open>e.Nodes[i].ID\<close>) and its tags.
  \<open>osm.Relation\<close>: identifier, version and tags, for the statistics.
\<close>

record Way =
  WayID :: "64 word"
  WayVersion :: "64 word"
  Nodes :: "NodeID list"
  WayTags :: "Tag list"

record Relation =
  RelationID :: "64 word"
  RelationVersion :: "64 word"
  Members :: nat
  RelationTags :: "Tag list"

datatype Object = ONode node | OWay Way | ORelation Relation

text \<open>
  \<open>TagMap()\<close> is a method of the package osm (github.com/paulmach/osm), which the program
  imports. It returns \<open>Tags.Map()\<close>: a loop over the tags that stores
  \<open>result[t.Key] = t.Value\<close> in a new map, so of two tags with one key the later one stays.
  The properties below depend on the tag map only through its lookups.
\<close>

definition TagMap :: "Tag list \<Rightarrow> (string \<rightharpoonup> string)" where
  "TagMap ts = fold (\<lambda>t result. result(Key t \<mapsto> Value t)) ts Map.empty"

section \<open>Element identifiers\<close>

text \<open>
  The statistics of \<open>main\<close> work on \<open>osm.ElementID\<close>, an \<open>int64\<close> into which the package osm
  (feature.go, element.go, node.go, way.go, relation.go) packs the type of the element,
  its identifier and its version:
  \<^item> \<open>versionBits = 16\<close>, \<open>versionMask = 0x000000000000FFFF\<close>,
    \<open>refMask = 0x00FFFFFFFFFF0000\<close>, \<open>typeMask = 0x7F00000000000000\<close>,
    \<open>nodeMask = 0x1000000000000000\<close>, \<open>wayMask = 0x2000000000000000\<close>,
    \<open>relationMask = 0x3000000000000000\<close>;
  \<^item> \<open>e.ElementID()\<close> of a node is \<open>ElementID(FeatureID(nodeMask | (id << versionBits)) |
    (versionMask & FeatureID(version)))\<close>, with \<open>wayMask\<close> and \<open>relationMask\<close> for a way and a
    relation;
  \<^item> \<open>Type()\<close> switches on \<open>id & typeMask\<close>: \<open>nodeMask\<close>, \<open>wayMask\<close> and \<open>relationMask\<close> give
    the type, everything else runs into \<open>panic("unknown type")\<close>; here \<open>None\<close>;
  \<^item> \<open>Ref()\<close> is \<open>int64((id & refMask) >> versionBits)\<close> and \<open>Version()\<close> is
    \<open>int(id & versionMask)\<close>.

  The identifier has 40 bits of its own in this packing. The bits of an identifier
  outside \<open>0 .. 2^40 - 1\<close> reach into the bits of the type.
\<close>

datatype Type = TypeNode | TypeWay | TypeRelation

type_synonym ElementID = "64 word"

definition versionMask :: "64 word" where
  "versionMask = 0x000000000000FFFF"

definition refMask :: "64 word" where
  "refMask = 0x00FFFFFFFFFF0000"

definition typeMask :: "64 word" where
  "typeMask = 0x7F00000000000000"

definition nodeMask :: "64 word" where
  "nodeMask = 0x1000000000000000"

definition wayMask :: "64 word" where
  "wayMask = 0x2000000000000000"

definition relationMask :: "64 word" where
  "relationMask = 0x3000000000000000"

definition elementID :: "64 word \<Rightarrow> 64 word \<Rightarrow> 64 word \<Rightarrow> ElementID" where
  "elementID kind ref v = (kind OR push_bit 16 ref) OR (versionMask AND v)"

definition elementType :: "ElementID \<Rightarrow> Type option" where
  "elementType eid =
     (if eid AND typeMask = nodeMask then Some TypeNode
      else if eid AND typeMask = wayMask then Some TypeWay
      else if eid AND typeMask = relationMask then Some TypeRelation
      else None)"

definition elementRef :: "ElementID \<Rightarrow> 64 word" where
  "elementRef eid = drop_bit 16 (eid AND refMask)"

definition elementVersion :: "ElementID \<Rightarrow> 64 word" where
  "elementVersion eid = eid AND versionMask"

definition nodeElementID :: "'t Node \<Rightarrow> ElementID" where
  "nodeElementID e = elementID nodeMask (ID e) (Version e)"

definition wayElementID :: "Way \<Rightarrow> ElementID" where
  "wayElementID e = elementID wayMask (WayID e) (WayVersion e)"

definition relationElementID :: "Relation \<Rightarrow> ElementID" where
  "relationElementID e = elementID relationMask (RelationID e) (RelationVersion e)"

section \<open>Statistics\<close>

text \<open>
  \<open>elementStats\<close> and \<open>idRange\<close> with their methods \<open>Add\<close> (main.go, 373-423). The map \<open>Ranges\<close> has the
  three keys that \<open>newElementStats\<close> gives it, and \<open>Type()\<close> returns no other key: a total
  function on the three types. \<open>MaxVersion\<close> and the bounds of a range are \<open>int\<close> and
  \<open>int64\<close> and are compared as such (\<open>sint\<close>); \<open>MaxTags\<close> holds a length. \<open>Add\<close> calls
  \<open>id.Type()\<close> first, so it panics on an identifier without a type and changes nothing
  then: the result \<open>None\<close>.
\<close>

record idRange =
  Min_id :: "64 word"
  Max_id :: "64 word"

record elementStats =
  Ranges :: "Type \<Rightarrow> idRange"
  MaxVersion :: "64 word"
  MaxTags :: nat
  MaxTagsID :: ElementID

definition newElementStats :: elementStats where
  "newElementStats =
     \<lparr>Ranges = (\<lambda>t. \<lparr>Min_id = 0x7FFFFFFFFFFFFFFF, Max_id = 0\<rparr>),
      MaxVersion = 0, MaxTags = 0, MaxTagsID = 0\<rparr>"

definition idRange_Add :: "64 word \<Rightarrow> idRange \<Rightarrow> idRange" where
  "idRange_Add ref r =
     (let r1 = (if sint (Max_id r) < sint ref then r\<lparr>Max_id := ref\<rparr> else r)
      in if sint ref < sint (Min_id r1) then r1\<lparr>Min_id := ref\<rparr> else r1)"

definition elementStats_Add :: "ElementID \<Rightarrow> Tag list \<Rightarrow> elementStats \<Rightarrow> elementStats option" where
  "elementStats_Add eid tags s =
     (case elementType eid of
        None \<Rightarrow> None
      | Some t \<Rightarrow>
          (let s1 = s\<lparr>Ranges := (Ranges s)(t := idRange_Add (elementRef eid) (Ranges s t))\<rparr>;
               s2 = (if sint (MaxVersion s1) < sint (elementVersion eid)
                     then s1\<lparr>MaxVersion := elementVersion eid\<rparr> else s1)
           in Some (if MaxTags s2 < length tags
                    then s2\<lparr>MaxTags := length tags, MaxTagsID := eid\<rparr> else s2)))"

section \<open>Errors and the output sink\<close>

text \<open>
  Every failure of the program ends the process: \<open>log.Fatalf\<close> and \<open>os.Exit(1)\<close>, or a
  panic of the Go runtime. A function that can end the process returns \<open>Inl\<close> of the reason
  together with the state in which the process ends; \<open>Inr\<close> is the state in which the
  function returns.

  The serializer (\<open>xml.MarshalIndent\<close>) and the buffered file writer are outside the
  program. What is written is modelled as the sequence of node records handed over, and
  whether handing over a record fails is decided by a parameter \<open>sink\<close>: given the records
  already written and the next one, it answers that the record is accepted, that
  \<open>xml.MarshalIndent\<close> fails, or that \<open>fmt.Fprintf\<close> fails.
\<close>

datatype error = UsageExit | OpenError | MarshalError | WriteError | ScannerError | Panic

datatype sinkResult = Accepted | MarshalFailed | WriteFailed

type_synonym sink = "node list \<Rightarrow> node \<Rightarrow> sinkResult"

type_synonym 's result = "(error \<times> 's) + 's"

definition bind_err :: "'s result \<Rightarrow> ('s \<Rightarrow> 's result) \<Rightarrow> 's result" where
  "bind_err m f = (case m of Inl e \<Rightarrow> Inl e | Inr x \<Rightarrow> f x)"

section \<open>Program state\<close>

text \<open>
  The package-level counter \<open>newNodeID\<close>, the content written through \<open>writer\<close>, and the
  local variables of \<open>main\<close> that the processing loop updates. The table
  \<open>turningCircleLoop\<close> is a Go map of node pointers. The decoder hands every node out as a
  record of its own, and the table is the only place that keeps the pointer, stored under
  the node's own identifier; so the table is modelled as a map from the identifier to the
  record's current value (section Store has the table of pointers and relates the two).
  The counters are natural numbers: each of them is at most the number of objects or of
  node references of the input. The other local variables of \<open>main\<close> (the bounds of
  latitude, longitude and timestamp, \<open>maxNodeRefs\<close>, \<open>maxRelRefs\<close> and their identifiers)
  are assigned after comparisons of floats, times and lengths and read by \<open>fmt.Printf\<close>
  only; none of these statements can fail, and they are left out.
\<close>

record State =
  newNodeID :: NodeID
  writer :: "node list"
  nodes :: nat
  ways :: nat
  relations :: nat
  stats :: elementStats
  junctionPointsFound :: nat
  turningCirclePointsFound :: nat
  turningLoopPointsFound :: nat
  turningCircleLoop :: "NodeID \<rightharpoonup> node"
  turningCircleLoopModified :: nat

section \<open>Node synthesis\<close>

text \<open>
  \<open>writeNewNodeObject\<close>: assigns the counter to the record, increments the counter, then
  serializes and writes the record. The increment is that of \<open>int64\<close> and wraps around.
\<close>

definition writeNewNodeObject :: "sink \<Rightarrow> node \<Rightarrow> State \<Rightarrow> State result" where
  "writeNewNodeObject snk newOsmNode st =
     (let n = newOsmNode\<lparr>ID := newNodeID st\<rparr>;
          st1 = st\<lparr>newNodeID := newNodeID st + 1\<rparr>
      in case snk (writer st1) n of
           MarshalFailed \<Rightarrow> Inl (MarshalError, st1)
         | WriteFailed \<Rightarrow> Inl (WriteError, st1)
         | Accepted \<Rightarrow> Inr (st1\<lparr>writer := writer st1 @ [n]\<rparr>))"

text \<open>
  The five statements that every branch of \<open>createNewNodeNetworkObject\<close> repeats: append
  the tag \<open>node_network\<close> with the label, append the tag \<open>name\<close> with the reference value,
  write the record.
\<close>

definition appendAndWrite :: "sink \<Rightarrow> node \<Rightarrow> string \<Rightarrow> string \<Rightarrow> State \<Rightarrow> State result" where
  "appendAndWrite snk newOsmNode label refValue st =
     (let n1 = newOsmNode\<lparr>Tags := Tags newOsmNode @ [\<lparr>Key = ''node_network'', Value = label\<rparr>]\<rparr>;
          n2 = n1\<lparr>Tags := Tags n1 @ [\<lparr>Key = ''name'', Value = refValue\<rparr>]\<rparr>
      in writeNewNodeObject snk n2 st)"

text \<open>
  The six sections of \<open>createNewNodeNetworkObject\<close>, in the order of the source. Each
  starts from a copy of the source node with identifier 0 and no tags. The bicycle and the
  hiking section are chains of nested \<open>if found ... else\<close>; the other four look up one key.
\<close>

definition networkBicycle :: "sink \<Rightarrow> node \<Rightarrow> (string \<rightharpoonup> string) \<Rightarrow> State \<Rightarrow> State result" where
  "networkBicycle snk sourceOsmNode tags st =
     (let newOsmNode = sourceOsmNode\<lparr>ID := 0, Tags := []\<rparr> in
      case tags ''icn_ref'' of
        Some refValue \<Rightarrow> appendAndWrite snk newOsmNode ''node_bicycle'' refValue st
      | None \<Rightarrow>
     (case tags ''ncn_ref'' of
        Some refValue \<Rightarrow> appendAndWrite snk newOsmNode ''node_bicycle'' refValue st
      | None \<Rightarrow>
     (case tags ''rcn_ref'' of
        Some refValue \<Rightarrow> appendAndWrite snk newOsmNode ''node_bicycle'' refValue st
      | None \<Rightarrow>
     (case tags ''lcn_ref'' of
        Some refValue \<Rightarrow> appendAndWrite snk newOsmNode ''node_bicycle'' refValue st
      | None \<Rightarrow> Inr st))))"

definition networkHiking :: "sink \<Rightarrow> node \<Rightarrow> (string \<rightharpoonup> string) \<Rightarrow> State \<Rightarrow> State result" where
  "networkHiking snk sourceOsmNode tags st =
     (let newOsmNode = sourceOsmNode\<lparr>ID := 0, Tags := []\<rparr> in
      case tags ''iwn_ref'' of
        Some refValue \<Rightarrow> appendAndWrite snk newOsmNode ''node_hiking'' refValue st
      | None \<Rightarrow>
     (case tags ''nwn_ref'' of
        Some refValue \<Rightarrow> appendAndWrite snk newOsmNode ''node_hiking'' refValue st
      | None \<Rightarrow>
     (case tags ''rwn_ref'' of
        Some refValue \<Rightarrow> appendAndWrite snk newOsmNode ''node_hiking'' refValue st
      | None \<Rightarrow>
     (case tags ''lwn_ref'' of
        Some refValue \<Rightarrow> appendAndWrite snk newOsmNode ''node_hiking'' refValue st
      | None \<Rightarrow> Inr st))))"

definition networkSingle ::
  "string \<Rightarrow> string \<Rightarrow> sink \<Rightarrow> node \<Rightarrow> (string \<rightharpoonup> string) \<Rightarrow> State \<Rightarrow> State result" where
  "networkSingle refKey label snk sourceOsmNode tags st =
     (let newOsmNode = sourceOsmNode\<lparr>ID := 0, Tags := []\<rparr> in
      case tags refKey of
        Some refValue \<Rightarrow> appendAndWrite snk newOsmNode label refValue st
      | None \<Rightarrow> Inr st)"

definition createNewNodeNetworkObject :: "sink \<Rightarrow> node \<Rightarrow> State \<Rightarrow> State result" where
  "createNewNodeNetworkObject snk sourceOsmNode st =
     (let tags = TagMap (Tags sourceOsmNode) in
      bind_err (networkBicycle snk sourceOsmNode tags st) (\<lambda>st.
      bind_err (networkHiking snk sourceOsmNode tags st) (\<lambda>st.
      bind_err (networkSingle ''rin_ref'' ''node_inline_skates'' snk sourceOsmNode tags st) (\<lambda>st.
      bind_err (networkSingle ''rhn_ref'' ''node_horse'' snk sourceOsmNode tags st) (\<lambda>st.
      bind_err (networkSingle ''rpn_ref'' ''node_canoe'' snk sourceOsmNode tags st) (\<lambda>st.
      networkSingle ''rmn_ref'' ''node_motorboat'' snk sourceOsmNode tags st))))))"

section \<open>Turning circles and turning loops\<close>

text \<open>
  The loop \<open>for _, tag := range value.Tags\<close> that sets a flag and breaks at the first tag
  with the key \<open>fzk_turning\<close>. The source has it in \<open>addHighwayTypeToTurningCircleLoop\<close> and
  twice in \<open>main\<close>.
\<close>

fun fzkTagFound :: "Tag list \<Rightarrow> bool" where
  "fzkTagFound [] = False"
| "fzkTagFound (tag # rest) = (if Key tag = ''fzk_turning'' then True else fzkTagFound rest)"

text \<open>
  \<open>addHighwayTypeToTurningCircleLoop\<close>: the loop over the node references of the way, with
  the table and the counter \<open>found\<close> as its state. \<open>found\<close> counts upwards from 0 and is at
  most the number of references, so it is a natural number.
\<close>

fun addHighwayTypeLoop ::
  "NodeID list \<Rightarrow> string \<Rightarrow> (NodeID \<rightharpoonup> node) \<Rightarrow> nat \<Rightarrow> (NodeID \<rightharpoonup> node) \<times> nat" where
  "addHighwayTypeLoop [] highwayType tcl found = (tcl, found)"
| "addHighwayTypeLoop (nodeID # rest) highwayType tcl found =
     (case tcl nodeID of
        Some v \<Rightarrow>
          if fzkTagFound (Tags v) then addHighwayTypeLoop rest highwayType tcl found
          else addHighwayTypeLoop rest highwayType
                 (tcl(nodeID \<mapsto> v\<lparr>Tags := Tags v @ [\<lparr>Key = ''fzk_turning'', Value = highwayType\<rparr>]\<rparr>))
                 (found + 1)
      | None \<Rightarrow> addHighwayTypeLoop rest highwayType tcl found)"

definition addHighwayTypeToTurningCircleLoop ::
  "Way \<Rightarrow> (string \<rightharpoonup> string) \<Rightarrow> (NodeID \<rightharpoonup> node) \<Rightarrow> string \<Rightarrow> (NodeID \<rightharpoonup> node) \<times> nat" where
  "addHighwayTypeToTurningCircleLoop e tags tcl highwayType =
     addHighwayTypeLoop (Nodes e) highwayType tcl 0"

section \<open>The processing loop of main\<close>

text \<open>
  The three cases of the type switch (main.go, 170-252). Each case counts the object and
  calls \<open>stats.Add(e.ElementID(), e.Tags)\<close> before it looks at the tags; when \<open>Add\<close>
  panics, the process ends there. \<open>len(tags) > 0\<close> on the tag map is \<open>tags \<noteq> Map.empty\<close>.

  \<open>registerTurning\<close> is the second half of the node case (main.go, 202-223): the lookup of
  \<open>highway\<close> and the two \<open>if\<close> statements that count the node and store it in the table
  under its identifier.
\<close>

definition registerTurning :: "node \<Rightarrow> (string \<rightharpoonup> string) \<Rightarrow> State \<Rightarrow> State" where
  "registerTurning e tags st =
     (case tags ''highway'' of
        Some tagValue \<Rightarrow>
          (let st1 = (if tagValue = ''turning_circle''
                      then st\<lparr>turningCirclePointsFound := turningCirclePointsFound st + 1,
                              turningCircleLoop := (turningCircleLoop st)(ID e \<mapsto> e)\<rparr>
                      else st)
           in if tagValue = ''turning_loop''
              then st1\<lparr>turningLoopPointsFound := turningLoopPointsFound st1 + 1,
                       turningCircleLoop := (turningCircleLoop st1)(ID e \<mapsto> e)\<rparr>
              else st1)
      | None \<Rightarrow> st)"

definition processNode :: "sink \<Rightarrow> node \<Rightarrow> State \<Rightarrow> State result" where
  "processNode snk e st0 =
     (let st = st0\<lparr>nodes := nodes st0 + 1\<rparr> in
      case elementStats_Add (nodeElementID e) (Tags e) (stats st) of
        None \<Rightarrow> Inl (Panic, st)
      | Some s \<Rightarrow>
          (let st = st\<lparr>stats := s\<rparr>;
               tags = TagMap (Tags e)
           in if tags \<noteq> Map.empty then
                bind_err
                  (if tags ''network:type'' = Some ''node_network''
                   then createNewNodeNetworkObject snk e
                          (st\<lparr>junctionPointsFound := junctionPointsFound st + 1\<rparr>)
                   else Inr st)
                  (\<lambda>st. Inr (registerTurning e tags st))
              else Inr st))"

definition processWay :: "Way \<Rightarrow> State \<Rightarrow> State result" where
  "processWay e st0 =
     (let st = st0\<lparr>ways := ways st0 + 1\<rparr> in
      case elementStats_Add (wayElementID e) (WayTags e) (stats st) of
        None \<Rightarrow> Inl (Panic, st)
      | Some s \<Rightarrow>
          (let st = st\<lparr>stats := s\<rparr>;
               tags = TagMap (WayTags e)
           in Inr
             (if tags \<noteq> Map.empty then
                (case tags ''highway'' of
                   Some tagValue \<Rightarrow>
                     if tagValue = ''residential'' \<or> tagValue = ''living_street'' \<or>
                        tagValue = ''unclassified'' \<or> tagValue = ''service'' \<or> tagValue = ''track''
                     then (let (tcl, found) =
                                 addHighwayTypeToTurningCircleLoop e tags (turningCircleLoop st) tagValue
                           in st\<lparr>turningCircleLoop := tcl,
                                 turningCircleLoopModified := turningCircleLoopModified st + found\<rparr>)
                     else st
                 | None \<Rightarrow> st)
              else st)))"

definition processRelation :: "Relation \<Rightarrow> State \<Rightarrow> State result" where
  "processRelation e st0 =
     (let st = st0\<lparr>relations := relations st0 + 1\<rparr> in
      case elementStats_Add (relationElementID e) (RelationTags e) (stats st) of
        None \<Rightarrow> Inl (Panic, st)
      | Some s \<Rightarrow> Inr (st\<lparr>stats := s\<rparr>))"

fun processObject :: "sink \<Rightarrow> Object \<Rightarrow> State \<Rightarrow> State result" where
  "processObject snk (ONode e) st = processNode snk e st"
| "processObject snk (OWay e) st = processWay e st"
| "processObject snk (ORelation e) st = processRelation e st"

text \<open>\<open>for scanner.Scan()\<close>: one step per decoded object, in the order of the input.\<close>

fun scanLoop :: "sink \<Rightarrow> Object list \<Rightarrow> State \<Rightarrow> State result" where
  "scanLoop snk [] st = Inr st"
| "scanLoop snk (obj # rest) st =
     (case processObject snk obj st of
        Inl e \<Rightarrow> Inl e
      | Inr st1 \<Rightarrow> scanLoop snk rest st1)"

section \<open>The statistics output\<close>

text \<open>
  Between the processing loop and the final loop \<open>main\<close> prints its statistics (main.go,
  270-323). The statements read the state and print; the loop over the table (282-299)
  counts into a local map and changes no record. One of the arguments is
  \<open>stats.MaxTagsID.Type()\<close> (main.go, 319), which panics when \<open>MaxTagsID\<close> has no type: it
  still has its zero value when no object with a tag has been added to the statistics.
\<close>

definition statisticsOutput :: "State \<Rightarrow> State result" where
  "statisticsOutput st =
     (case elementType (MaxTagsID (stats st)) of
        None \<Rightarrow> Inl (Panic, st)
      | Some t \<Rightarrow> Inr st)"

section \<open>Writing the turning circles and loops\<close>

text \<open>
  The final loop \<open>for _, value := range turningCircleLoop\<close> (main.go, 325-350). Go leaves
  the order in which a map is ranged over open and visits every key once; the order is the
  list of keys the function is given. For an entry without the tag \<open>fzk_turning\<close> the tag
  with the value \<open>not_set\<close> is appended to the record in the table; then the record is
  serialized and written.
\<close>

fun writeTurningLoop :: "sink \<Rightarrow> NodeID list \<Rightarrow> State \<Rightarrow> State result" where
  "writeTurningLoop snk [] st = Inr st"
| "writeTurningLoop snk (k # rest) st =
     (case turningCircleLoop st k of
        None \<Rightarrow> writeTurningLoop snk rest st
      | Some v \<Rightarrow>
          (let v1 = (if fzkTagFound (Tags v) then v
                     else v\<lparr>Tags := Tags v @ [\<lparr>Key = ''fzk_turning'', Value = ''not_set''\<rparr>]\<rparr>);
               st1 = st\<lparr>turningCircleLoop := (turningCircleLoop st)(k \<mapsto> v1)\<rparr>
           in case snk (writer st1) v1 of
                MarshalFailed \<Rightarrow> Inl (MarshalError, st1)
              | WriteFailed \<Rightarrow> Inl (WriteError, st1)
              | Accepted \<Rightarrow> writeTurningLoop snk rest (st1\<lparr>writer := writer st1 @ [v1]\<rparr>)))"

section \<open>main\<close>

text \<open>
  The command line. \<open>main\<close> defines the three flags \<open>inputOSM\<close>, \<open>outputNodes\<close> (strings,
  default empty) and \<open>startNode\<close> (\<open>flag.Int\<close>, default 0), sets \<open>flag.Usage = printProgUsage\<close>
  and calls \<open>flag.Parse()\<close> (main.go, 106-111). Of the command line the model keeps, for
  each flag, the text that \<open>flag.Parse\<close> reads for it (it reads up to the first argument
  that is not a flag), and whether what it reads has the form of these flags at all (no
  undefined flag, no flag without its value, no \<open>-h\<close> or \<open>-help\<close>).
  \<open>flag.Parse\<close> sets an integer flag with \<open>strconv.ParseInt(s, 0, strconv.IntSize)\<close>, which
  is outside the program: the parameter \<open>parseInt\<close>, the integer that a text denotes, if
  any. Whenever \<open>flag.Parse\<close> cannot parse the command line, it reports that and calls
  \<open>flag.Usage\<close>, that is \<open>printProgUsage\<close>, which ends the process with \<open>os.Exit(1)\<close>: the
  result \<open>None\<close>.
\<close>

record CommandLine =
  wellFormed :: bool
  inputOSMArg :: "string option"
  outputNodesArg :: "string option"
  startNodeArg :: "string option"

record Flags =
  inputOSM :: string
  outputNodes :: string
  startNode :: "64 word"

definition flagParse :: "(string \<Rightarrow> 64 word option) \<Rightarrow> CommandLine \<Rightarrow> Flags option" where
  "flagParse parseInt cl =
     (if \<not> wellFormed cl then None
      else case (case startNodeArg cl of None \<Rightarrow> Some 0 | Some s \<Rightarrow> parseInt s) of
             None \<Rightarrow> None
           | Some n \<Rightarrow>
               Some \<lparr>inputOSM = (case inputOSMArg cl of None \<Rightarrow> [] | Some s \<Rightarrow> s),
                     outputNodes = (case outputNodesArg cl of None \<Rightarrow> [] | Some s \<Rightarrow> s),
                     startNode = n\<rparr>)"

text \<open>
  The environment: how the text of an integer is read, whether the two files open,
  whether the two header lines are written, the objects the scanner decodes and whether
  it ends with an error, the sink, the order in which the runtime ranges over the table,
  and whether the closing tag, the flush and the two closes succeed.
\<close>

record Env =
  parseInt :: "string \<Rightarrow> 64 word option"
  openInputOk :: bool
  openOutputOk :: bool
  writeHeaderOk :: bool
  scanned :: "Object list"
  scannerErr :: bool
  outputSink :: sink
  rangeOrder :: "(NodeID \<rightharpoonup> node) \<Rightarrow> NodeID list"
  finishOk :: bool

text \<open>
  The state when the process starts: the counter \<open>newNodeID\<close> is a package-level variable
  with the value 0, and nothing is written. \<open>main\<close> assigns the start identifier to the
  counter after it has opened the files and written the header (main.go, 144).
\<close>

definition zeroState :: State where
  "zeroState =
     \<lparr>newNodeID = 0, writer = [], nodes = 0, ways = 0, relations = 0, stats = newElementStats,
      junctionPointsFound = 0, turningCirclePointsFound = 0, turningLoopPointsFound = 0,
      turningCircleLoop = Map.empty, turningCircleLoopModified = 0\<rparr>"

definition initialState :: "Flags \<Rightarrow> State" where
  "initialState flags = zeroState\<lparr>newNodeID := startNode flags\<rparr>"

definition main :: "CommandLine \<Rightarrow> Env \<Rightarrow> State result" where
  "main cl env =
     (case flagParse (parseInt env) cl of
        None \<Rightarrow> Inl (UsageExit, zeroState)
      | Some flags \<Rightarrow>
          if inputOSM flags = [] \<or> outputNodes flags = [] \<or> startNode flags = 0
          then Inl (UsageExit, zeroState)
          else if \<not> openInputOk env then Inl (OpenError, zeroState)
          else if \<not> openOutputOk env then Inl (OpenError, zeroState)
          else if \<not> writeHeaderOk env then Inl (WriteError, zeroState)
          else bind_err (scanLoop (outputSink env) (scanned env) (initialState flags)) (\<lambda>st.
               if scannerErr env then Inl (ScannerError, st)
               else bind_err (statisticsOutput st) (\<lambda>st.
                    bind_err (writeTurningLoop (outputSink env) (rangeOrder env (turningCircleLoop st)) st)
                      (\<lambda>st. if \<not> finishOk env then Inl (WriteError, st) else Inr st))))"

text \<open>
  The exit status of the process: \<open>printProgUsage\<close>, \<open>log.Fatalf\<close> and the scanner error
  all end with \<open>os.Exit(1)\<close>; a panic that nothing recovers ends the process with the
  status 2; the last statement of \<open>main\<close> is \<open>os.Exit(0)\<close>. \<open>finalState\<close> is the state in
  which the process ends, whichever way it ends, or in which a function returns;
  \<open>returned\<close> says that the function returns.
\<close>

definition exitCode :: "State result \<Rightarrow> int" where
  "exitCode r = (case r of Inl (e, st) \<Rightarrow> (if e = Panic then 2 else 1) | Inr st \<Rightarrow> 0)"

definition finalState :: "'s result \<Rightarrow> 's" where
  "finalState r = (case r of Inl (e, st) \<Rightarrow> st | Inr st \<Rightarrow> st)"

definition returned :: "'s result \<Rightarrow> bool" where
  "returned r = (case r of Inl x \<Rightarrow> False | Inr st \<Rightarrow> True)"

section \<open>Store: node records behind pointers, tag slices over backing arrays\<close>

text \<open>
  The value model above cannot say that a function leaves a record alone that it only
  holds a pointer to. For \<open>createNewNodeNetworkObject\<close> and the node case of \<open>main\<close> the
  store is therefore made explicit:
  \<^item> a slice is a header of the address of its backing array, its length and its
    capacity (slices here always start at the beginning of their array);
  \<^item> the backing arrays are a list, the address of an array is its index, and a new
    array is put at the end;
  \<^item> the node records that the program holds pointers to are a list as well. The local
    variable \<open>newOsmNode\<close>, whose address is passed to \<open>writeNewNodeObject\<close>, is such a
    record; the table \<open>turningCircleLoop\<close> maps an identifier to the address of a record.
\<close>

record Slice =
  arr :: nat
  len :: nat
  cap :: nat

record HeapState =
  cells :: "Slice Node list"
  arrays :: "Tag list list"
  hNewNodeID :: NodeID
  hWriter :: "node list"
  hNodes :: nat
  hStats :: elementStats
  hJunctionPointsFound :: nat
  hTurningCirclePointsFound :: nat
  hTurningLoopPointsFound :: nat
  hTurningCircleLoop :: "NodeID \<rightharpoonup> nat"

text \<open>The elements of a slice, and the value of the record at an address.\<close>

definition contents :: "Tag list list \<Rightarrow> Slice \<Rightarrow> Tag list" where
  "contents as s = take (len s) (as ! arr s)"

definition load :: "HeapState \<Rightarrow> nat \<Rightarrow> node" where
  "load st a =
     (let n = cells st ! a in
      \<lparr>ID = ID n, Lat = Lat n, Lon = Lon n, User = User n, UserID = UserID n,
       Visible = Visible n, Version = Version n, ChangesetID = ChangesetID n,
       Timestamp = Timestamp n, Tags = contents (arrays st) (Tags n), Committed = Committed n\<rparr>)"

text \<open>
  The slice literal \<open>[]osm.Tag{}\<close> has length and capacity 0; its array is never read or
  written.
\<close>

definition emptySlice :: Slice where
  "emptySlice = \<lparr>arr = 0, len = 0, cap = 0\<rparr>"

text \<open>
  \<open>append(s, x)\<close> for one element. If the capacity is larger than the length, the element
  is stored in the backing array of \<open>s\<close> and the result shares that array. Otherwise a new
  array is allocated that holds the elements of \<open>s\<close>, then \<open>x\<close>, then zero values up to
  its capacity. By how much the new capacity exceeds the needed length is the choice of the
  Go runtime: the parameter \<open>grow\<close>, applied to the old capacity.
\<close>

definition appendTag ::
  "(nat \<Rightarrow> nat) \<Rightarrow> Tag list list \<Rightarrow> Slice \<Rightarrow> Tag \<Rightarrow> Tag list list \<times> Slice" where
  "appendTag grow as s x =
     (if len s < cap s
      then (as[arr s := (as ! arr s)[len s := x]], s\<lparr>len := len s + 1\<rparr>)
      else (as @ [take (len s) (as ! arr s) @ x # replicate (grow (cap s)) \<lparr>Key = [], Value = []\<rparr>],
            \<lparr>arr = length as, len = len s + 1, cap = len s + 1 + grow (cap s)\<rparr>))"

text \<open>\<open>newOsmNode.Tags = append(newOsmNode.Tags, tag)\<close> for the record at the address \<open>q\<close>.\<close>

definition appendToNode :: "(nat \<Rightarrow> nat) \<Rightarrow> nat \<Rightarrow> Tag \<Rightarrow> HeapState \<Rightarrow> HeapState" where
  "appendToNode grow q tag st =
     (let (as, s) = appendTag grow (arrays st) (Tags (cells st ! q)) tag
      in st\<lparr>arrays := as, cells := (cells st)[q := (cells st ! q)\<lparr>Tags := s\<rparr>]\<rparr>)"

text \<open>
  \<open>writeNewNodeObject\<close> with its pointer argument: it stores the counter in the record the
  pointer refers to, increments the counter, and serializes the record as it then is.
\<close>

definition writeNewNodeObject_h :: "sink \<Rightarrow> nat \<Rightarrow> HeapState \<Rightarrow> HeapState result" where
  "writeNewNodeObject_h snk newOsmNode st =
     (let st1 = st\<lparr>cells := (cells st)[newOsmNode := (cells st ! newOsmNode)\<lparr>ID := hNewNodeID st\<rparr>]\<rparr>;
          st2 = st1\<lparr>hNewNodeID := hNewNodeID st1 + 1\<rparr>
      in case snk (hWriter st2) (load st2 newOsmNode) of
           MarshalFailed \<Rightarrow> Inl (MarshalError, st2)
         | WriteFailed \<Rightarrow> Inl (WriteError, st2)
         | Accepted \<Rightarrow> Inr (st2\<lparr>hWriter := hWriter st2 @ [load st2 newOsmNode]\<rparr>))"

definition appendAndWrite_h ::
  "(nat \<Rightarrow> nat) \<Rightarrow> sink \<Rightarrow> nat \<Rightarrow> string \<Rightarrow> string \<Rightarrow> HeapState \<Rightarrow> HeapState result" where
  "appendAndWrite_h grow snk q label refValue st =
     (let st1 = appendToNode grow q \<lparr>Key = ''node_network'', Value = label\<rparr> st;
          st2 = appendToNode grow q \<lparr>Key = ''name'', Value = refValue\<rparr> st1
      in writeNewNodeObject_h snk q st2)"

text \<open>
  The three statements at the start of every section: \<open>newOsmNode = *sourceOsmNode\<close>,
  which copies the record and with it the slice header of the source's tags,
  \<open>newOsmNode.ID = 0\<close> and \<open>newOsmNode.Tags = []osm.Tag{}\<close>. Here \<open>p\<close> is the pointer
  \<open>sourceOsmNode\<close> and \<open>q\<close> the address of \<open>newOsmNode\<close>.
\<close>

definition copySource :: "nat \<Rightarrow> nat \<Rightarrow> HeapState \<Rightarrow> HeapState" where
  "copySource p q st =
     (let st1 = st\<lparr>cells := (cells st)[q := cells st ! p]\<rparr>;
          st2 = st1\<lparr>cells := (cells st1)[q := (cells st1 ! q)\<lparr>ID := 0\<rparr>]\<rparr>
      in st2\<lparr>cells := (cells st2)[q := (cells st2 ! q)\<lparr>Tags := emptySlice\<rparr>]\<rparr>)"

definition networkBicycle_h ::
  "(nat \<Rightarrow> nat) \<Rightarrow> sink \<Rightarrow> nat \<Rightarrow> nat \<Rightarrow> (string \<rightharpoonup> string) \<Rightarrow> HeapState \<Rightarrow> HeapState result" where
  "networkBicycle_h grow snk p q tags st0 =
     (let st = copySource p q st0 in
      case tags ''icn_ref'' of
        Some refValue \<Rightarrow> appendAndWrite_h grow snk q ''node_bicycle'' refValue st
      | None \<Rightarrow>
     (case tags ''ncn_ref'' of
        Some refValue \<Rightarrow> appendAndWrite_h grow snk q ''node_bicycle'' refValue st
      | None \<Rightarrow>
     (case tags ''rcn_ref'' of
        Some refValue \<Rightarrow> appendAndWrite_h grow snk q ''node_bicycle'' refValue st
      | None \<Rightarrow>
     (case tags ''lcn_ref'' of
        Some refValue \<Rightarrow> appendAndWrite_h grow snk q ''node_bicycle'' refValue st
      | None \<Rightarrow> Inr st))))"

definition networkHiking_h ::
  "(nat \<Rightarrow> nat) \<Rightarrow> sink \<Rightarrow> nat \<Rightarrow> nat \<Rightarrow> (string \<rightharpoonup> string) \<Rightarrow> HeapState \<Rightarrow> HeapState result" where
  "networkHiking_h grow snk p q tags st0 =
     (let st = copySource p q st0 in
      case tags ''iwn_ref'' of
        Some refValue \<Rightarrow> appendAndWrite_h grow snk q ''node_hiking'' refValue st
      | None \<Rightarrow>
     (case tags ''nwn_ref'' of
        Some refValue \<Rightarrow> appendAndWrite_h grow snk q ''node_hiking'' refValue st
      | None \<Rightarrow>
     (case tags ''rwn_ref'' of
        Some refValue \<Rightarrow> appendAndWrite_h grow snk q ''node_hiking'' refValue st
      | None \<Rightarrow>
     (case tags ''lwn_ref'' of
        Some refValue \<Rightarrow> appendAndWrite_h grow snk q ''node_hiking'' refValue st
      | None \<Rightarrow> Inr st))))"

definition networkSingle_h ::
  "string \<Rightarrow> string \<Rightarrow> (nat \<Rightarrow> nat) \<Rightarrow> sink \<Rightarrow> nat \<Rightarrow> nat \<Rightarrow> (string \<rightharpoonup> string) \<Rightarrow>
   HeapState \<Rightarrow> HeapState result" where
  "networkSingle_h refKey label grow snk p q tags st0 =
     (let st = copySource p q st0 in
      case tags refKey of
        Some refValue \<Rightarrow> appendAndWrite_h grow snk q label refValue st
      | None \<Rightarrow> Inr st)"

text \<open>
  \<open>createNewNodeNetworkObject\<close> on the store. The declaration
  \<open>newOsmNode := *sourceOsmNode\<close> makes a new record at the end of the records, a copy of
  the source record; the first section then starts like the others. The record stays
  behind as garbage when the function returns.
\<close>

definition createNewNodeNetworkObject_h ::
  "(nat \<Rightarrow> nat) \<Rightarrow> sink \<Rightarrow> nat \<Rightarrow> HeapState \<Rightarrow> HeapState result" where
  "createNewNodeNetworkObject_h grow snk sourceOsmNode st0 =
     (let tags = TagMap (Tags (load st0 sourceOsmNode));
          q = length (cells st0);
          st = st0\<lparr>cells := cells st0 @ [cells st0 ! sourceOsmNode]\<rparr>
      in
      bind_err (networkBicycle_h grow snk sourceOsmNode q tags st) (\<lambda>st.
      bind_err (networkHiking_h grow snk sourceOsmNode q tags st) (\<lambda>st.
      bind_err (networkSingle_h ''rin_ref'' ''node_inline_skates'' grow snk sourceOsmNode q tags st) (\<lambda>st.
      bind_err (networkSingle_h ''rhn_ref'' ''node_horse'' grow snk sourceOsmNode q tags st) (\<lambda>st.
      bind_err (networkSingle_h ''rpn_ref'' ''node_canoe'' grow snk sourceOsmNode q tags st) (\<lambda>st.
      networkSingle_h ''rmn_ref'' ''node_motorboat'' grow snk sourceOsmNode q tags st))))))"

text \<open>
  The node case of the type switch in \<open>main\<close> on the store: \<open>e\<close> is the pointer that the
  scanner hands out, and the table stores the pointer. \<open>stats.Add\<close> reads the identifier,
  the version and the tags of the record.
\<close>

definition registerTurning_h :: "nat \<Rightarrow> (string \<rightharpoonup> string) \<Rightarrow> HeapState \<Rightarrow> HeapState" where
  "registerTurning_h e tags st =
     (case tags ''highway'' of
        Some tagValue \<Rightarrow>
          (let st1 = (if tagValue = ''turning_circle''
                      then st\<lparr>hTurningCirclePointsFound := hTurningCirclePointsFound st + 1,
                              hTurningCircleLoop :=
                                (hTurningCircleLoop st)(ID (cells st ! e) \<mapsto> e)\<rparr>
                      else st)
           in if tagValue = ''turning_loop''
              then st1\<lparr>hTurningLoopPointsFound := hTurningLoopPointsFound st1 + 1,
                       hTurningCircleLoop :=
                         (hTurningCircleLoop st1)(ID (cells st1 ! e) \<mapsto> e)\<rparr>
              else st1)
      | None \<Rightarrow> st)"

definition processNode_h :: "(nat \<Rightarrow> nat) \<Rightarrow> sink \<Rightarrow> nat \<Rightarrow> HeapState \<Rightarrow> HeapState result" where
  "processNode_h grow snk e st0 =
     (let st = st0\<lparr>hNodes := hNodes st0 + 1\<rparr> in
      case elementStats_Add (nodeElementID (load st e)) (Tags (load st e)) (hStats st) of
        None \<Rightarrow> Inl (Panic, st)
      | Some s \<Rightarrow>
          (let st = st\<lparr>hStats := s\<rparr>;
               tags = TagMap (Tags (load st e))
           in if tags \<noteq> Map.empty then
                bind_err
                  (if tags ''network:type'' = Some ''node_network''
                   then createNewNodeNetworkObject_h grow snk e
                          (st\<lparr>hJunctionPointsFound := hJunctionPointsFound st + 1\<rparr>)
                   else Inr st)
                  (\<lambda>st. Inr (registerTurning_h e tags st))
              else Inr st))"

section \<open>Notions used in the statements\<close>

subsection \<open>The sink\<close>

text \<open>
  A sink that accepts every record: neither \<open>xml.MarshalIndent\<close> nor \<open>fmt.Fprintf\<close> fails
  during the run.
\<close>

definition alwaysAccepts :: "sink \<Rightarrow> bool" where
  "alwaysAccepts snk \<longleftrightarrow> (\<forall>ws n. snk ws n = Accepted)"

subsection \<open>Node synthesis\<close>

text \<open>
  The priority chain of the specification: the value of the first key, in the given order,
  that the tag map has. The keys of the bicycle and of the hiking chain, all reference keys
  of the six categories, and the label of the category that a reference key belongs to.
\<close>

fun firstPresent :: "(string \<rightharpoonup> string) \<Rightarrow> string list \<Rightarrow> string option" where
  "firstPresent tags [] = None"
| "firstPresent tags (k # ks) = (case tags k of Some v \<Rightarrow> Some v | None \<Rightarrow> firstPresent tags ks)"

definition bicycleKeys :: "string list" where
  "bicycleKeys = [''icn_ref'', ''ncn_ref'', ''rcn_ref'', ''lcn_ref'']"

definition hikingKeys :: "string list" where
  "hikingKeys = [''iwn_ref'', ''nwn_ref'', ''rwn_ref'', ''lwn_ref'']"

definition referenceKeys :: "string list" where
  "referenceKeys =
     [''icn_ref'', ''ncn_ref'', ''rcn_ref'', ''lcn_ref'',
      ''iwn_ref'', ''nwn_ref'', ''rwn_ref'', ''lwn_ref'',
      ''rin_ref'', ''rhn_ref'', ''rpn_ref'', ''rmn_ref'']"

definition categoryLabel :: "string \<Rightarrow> string" where
  "categoryLabel k =
     (if k \<in> {''icn_ref'', ''ncn_ref'', ''rcn_ref'', ''lcn_ref''} then ''node_bicycle''
      else if k \<in> {''iwn_ref'', ''nwn_ref'', ''rwn_ref'', ''lwn_ref''} then ''node_hiking''
      else if k = ''rin_ref'' then ''node_inline_skates''
      else if k = ''rhn_ref'' then ''node_horse''
      else if k = ''rpn_ref'' then ''node_canoe''
      else ''node_motorboat'')"

text \<open>
  The synthesis requests that a tag map gives rise to, as pairs of category label and
  reference value, in the order of the six sections of \<open>createNewNodeNetworkObject\<close>: at
  most one for each category.
\<close>

definition request :: "string \<Rightarrow> string option \<Rightarrow> (string \<times> string) list" where
  "request label r = (case r of None \<Rightarrow> [] | Some v \<Rightarrow> [(label, v)])"

definition requests :: "(string \<rightharpoonup> string) \<Rightarrow> (string \<times> string) list" where
  "requests tags =
     request ''node_bicycle'' (firstPresent tags [''icn_ref'', ''ncn_ref'', ''rcn_ref'', ''lcn_ref'']) @
     request ''node_hiking'' (firstPresent tags [''iwn_ref'', ''nwn_ref'', ''rwn_ref'', ''lwn_ref'']) @
     request ''node_inline_skates'' (tags ''rin_ref'') @
     request ''node_horse'' (tags ''rhn_ref'') @
     request ''node_canoe'' (tags ''rpn_ref'') @
     request ''node_motorboat'' (tags ''rmn_ref'')"

text \<open>
  The derived record for a request: the source record with the identifier replaced and its
  tags replaced by the two tags \<open>node_network\<close> and \<open>name\<close>. For a list of requests the
  identifiers count upwards from \<open>c\<close>, in 64-bit arithmetic. \<open>emitAll\<close> is the state after
  these records are written; \<open>idsFrom c n\<close> are the \<open>n\<close> identifiers from \<open>c\<close> on.
\<close>

definition derived :: "node \<Rightarrow> NodeID \<Rightarrow> string \<Rightarrow> string \<Rightarrow> node" where
  "derived src i label v =
     src\<lparr>ID := i, Tags := [\<lparr>Key = ''node_network'', Value = label\<rparr>, \<lparr>Key = ''name'', Value = v\<rparr>]\<rparr>"

fun derivedAll :: "node \<Rightarrow> NodeID \<Rightarrow> (string \<times> string) list \<Rightarrow> node list" where
  "derivedAll src c [] = []"
| "derivedAll src c ((label, v) # rs) = derived src c label v # derivedAll src (c + 1) rs"

definition emitAll :: "node \<Rightarrow> (string \<times> string) list \<Rightarrow> State \<Rightarrow> State" where
  "emitAll src rs st =
     st\<lparr>newNodeID := newNodeID st + of_nat (length rs),
        writer := writer st @ derivedAll src (newNodeID st) rs\<rparr>"

definition idsFrom :: "NodeID \<Rightarrow> nat \<Rightarrow> NodeID list" where
  "idsFrom c n = map (\<lambda>i. c + of_nat i) [0..<n]"

text \<open>
  What the node case of \<open>main\<close> has written for a node when it is done with it, and the
  records with a given category label.
\<close>

definition synthesized :: "node \<Rightarrow> NodeID \<Rightarrow> node list" where
  "synthesized e c =
     (if TagMap (Tags e) ''network:type'' = Some ''node_network''
      then derivedAll e c (requests (TagMap (Tags e))) else [])"

definition isLabelled :: "string \<Rightarrow> node \<Rightarrow> bool" where
  "isLabelled label n \<longleftrightarrow> \<lparr>Key = ''node_network'', Value = label\<rparr> \<in> set (Tags n)"

text \<open>
  The identifiers, as integers, of the records that have been handed to the writer when
  the process ends.
\<close>

definition writtenIDs :: "State result \<Rightarrow> int list" where
  "writtenIDs r = map (\<lambda>n. sint (ID n)) (writer (finalState r))"

text \<open>
  What a call of \<open>createNewNodeNetworkObject\<close> for the requests \<open>rs\<close> can end with: it
  returns after all records are written, or the process ends in \<open>writeNewNodeObject\<close> for
  one of the requests, after the records of the requests before it are written and the
  counter has gone up once more.
\<close>

definition synthOutcome :: "node \<Rightarrow> (string \<times> string) list \<Rightarrow> State \<Rightarrow> State result \<Rightarrow> bool" where
  "synthOutcome src rs st r \<longleftrightarrow>
     r = Inr (emitAll src rs st) \<or>
     (\<exists>k err. k < length rs \<and>
        r = Inl (err, (emitAll src (take k rs) st)\<lparr>newNodeID := newNodeID st + of_nat k + 1\<rparr>))"

text \<open>
  All records written so far are derived records, numbered from \<open>c\<close> on without a gap;
  in a state from which the run goes on, the counter is the next number.
\<close>

definition numbered :: "NodeID \<Rightarrow> State \<Rightarrow> bool" where
  "numbered c st \<longleftrightarrow> map ID (writer st) = idsFrom c (length (writer st))"

definition numberedNext :: "NodeID \<Rightarrow> State \<Rightarrow> bool" where
  "numberedNext c st \<longleftrightarrow> numbered c st \<and> newNodeID st = c + of_nat (length (writer st))"

subsection \<open>Statistics\<close>

text \<open>
  An identifier within the 40 bits that the packing of \<open>osm.ElementID\<close> has for it: as an
  \<open>int64\<close> it is at least 0 and less than \<open>2^40\<close>. An object of the input with such an
  identifier, and an object that has a tag.
\<close>

definition idAccepted :: "64 word \<Rightarrow> bool" where
  "idAccepted i \<longleftrightarrow> i < 2 ^ 40"

fun objectAccepted :: "Object \<Rightarrow> bool" where
  "objectAccepted (ONode n) = idAccepted (ID n)"
| "objectAccepted (OWay w) = idAccepted (WayID w)"
| "objectAccepted (ORelation r) = idAccepted (RelationID r)"

fun objectTagged :: "Object \<Rightarrow> bool" where
  "objectTagged (ONode n) = (Tags n \<noteq> [])"
| "objectTagged (OWay w) = (WayTags w \<noteq> [])"
| "objectTagged (ORelation r) = (RelationTags r \<noteq> [])"

text \<open>
  The statistics know an object with a tag: then \<open>MaxTagsID\<close> is an identifier that \<open>Add\<close>
  has accepted.
\<close>

definition statsTagged :: "elementStats \<Rightarrow> bool" where
  "statsTagged s \<longleftrightarrow> 0 < MaxTags s \<and> elementType (MaxTagsID s) \<noteq> None"

definition statsSound :: "elementStats \<Rightarrow> bool" where
  "statsSound s \<longleftrightarrow> (0 < MaxTags s \<longrightarrow> elementType (MaxTagsID s) \<noteq> None)"

subsection \<open>Turning circles and loops\<close>

text \<open>
  The node is a turning circle or a turning loop by its tag map.
\<close>

definition isTurning :: "node \<Rightarrow> bool" where
  "isTurning e \<longleftrightarrow> TagMap (Tags e) ''highway'' = Some ''turning_circle'' \<or>
                 TagMap (Tags e) ''highway'' = Some ''turning_loop''"

text \<open>
  The five highway values for which the way case of \<open>main\<close> calls
  \<open>addHighwayTypeToTurningCircleLoop\<close>.
\<close>

definition qualifying :: "string set" where
  "qualifying = {''residential'', ''living_street'', ''unclassified'', ''service'', ''track''}"

text \<open>
  What one annotation does to a record: the tag is appended unless a tag with the key
  \<open>fzk_turning\<close> is present. The referenced identifiers whose table entry has no such tag
  yet. The number of tags with the key \<open>fzk_turning\<close> in a tag list.
\<close>

definition annotate1 :: "string \<Rightarrow> node \<Rightarrow> node" where
  "annotate1 highwayType v =
     (if fzkTagFound (Tags v) then v
      else v\<lparr>Tags := Tags v @ [\<lparr>Key = ''fzk_turning'', Value = highwayType\<rparr>]\<rparr>)"

definition pending :: "(NodeID \<rightharpoonup> node) \<Rightarrow> NodeID list \<Rightarrow> NodeID set" where
  "pending tcl refs = {k \<in> set refs. \<exists>v. tcl k = Some v \<and> \<not> fzkTagFound (Tags v)}"




text \<open>
  An object touches the table entry of an identifier when it is a turning circle or loop
  with this identifier, or a way with one of the five highway values that references it.
\<close>

fun touches :: "NodeID \<Rightarrow> Object \<Rightarrow> bool" where
  "touches i (ONode n) = (ID n = i \<and> isTurning n)"
| "touches i (OWay w) =
     (i \<in> set (Nodes w) \<and> (\<exists>h \<in> qualifying. TagMap (WayTags w) ''highway'' = Some h))"
| "touches i (ORelation r) = False"

subsection \<open>The store\<close>

text \<open>
  A slice is valid in a store when its length is within its capacity and, unless the
  capacity is 0, its array exists and has the size of the capacity. The tags of a record
  can be read when its slice is empty or its array exists.
\<close>

definition validSlice :: "Tag list list \<Rightarrow> Slice \<Rightarrow> bool" where
  "validSlice as s \<longleftrightarrow>
     len s \<le> cap s \<and> (cap s = 0 \<or> (arr s < length as \<and> length (as ! arr s) = cap s))"

definition readable :: "HeapState \<Rightarrow> nat \<Rightarrow> bool" where
  "readable s p \<longleftrightarrow>
     len (Tags (cells s ! p)) = 0 \<or> arr (Tags (cells s ! p)) < length (arrays s)"

text \<open>
  What a sequence of sections of \<open>createNewNodeNetworkObject\<close> may change, for a source
  record of the value \<open>v0\<close> and the address \<open>q\<close> of \<open>newOsmNode\<close>: the record at \<open>q\<close>,
  arrays allocated since, the counter and what is written.
\<close>

definition synthStep :: "node \<Rightarrow> nat \<Rightarrow> (string \<times> string) list \<Rightarrow> HeapState \<Rightarrow> HeapState \<Rightarrow> bool" where
  "synthStep v0 q rs s s' \<longleftrightarrow>
     length (cells s') = length (cells s) \<and>
     (\<forall>a. a \<noteq> q \<longrightarrow> cells s' ! a = cells s ! a) \<and>
     length (arrays s) \<le> length (arrays s') \<and>
     (\<forall>a < length (arrays s). arrays s' ! a = arrays s ! a) \<and>
     hWriter s' = hWriter s @ derivedAll v0 (hNewNodeID s) rs \<and>
     hNewNodeID s' = hNewNodeID s + of_nat (length rs) \<and>
     hNodes s' = hNodes s \<and>
     hStats s' = hStats s \<and>
     hJunctionPointsFound s' = hJunctionPointsFound s \<and>
     hTurningCirclePointsFound s' = hTurningCirclePointsFound s \<and>
     hTurningLoopPointsFound s' = hTurningLoopPointsFound s \<and>
     hTurningCircleLoop s' = hTurningCircleLoop s"

text \<open>
  The view of the value model on a store state: every pointer in the table is replaced
  by the value of the record it refers to. Ways and relations are not part of the store
  model. Every pointer in the table refers to an existing record whose tags can be
  read.
\<close>

definition abstract :: "HeapState \<Rightarrow> State" where
  "abstract st =
     \<lparr>newNodeID = hNewNodeID st, writer = hWriter st, nodes = hNodes st, ways = 0, relations = 0,
      stats = hStats st,
      junctionPointsFound = hJunctionPointsFound st,
      turningCirclePointsFound = hTurningCirclePointsFound st,
      turningLoopPointsFound = hTurningLoopPointsFound st,
      turningCircleLoop = (\<lambda>i. map_option (load st) (hTurningCircleLoop st i)),
      turningCircleLoopModified = 0\<rparr>"

definition heapInv :: "HeapState \<Rightarrow> bool" where
  "heapInv st \<longleftrightarrow>
     (\<forall>i a. hTurningCircleLoop st i = Some a \<longrightarrow> a < length (cells st) \<and> readable st a)"

section \<open>Example inputs\<close>

text \<open>
  A sink that accepts everything, a range order for the tables of the examples (their
  only key is 77), a state with the counter at 1000, a command line and an environment in
  which nothing fails.
\<close>

definition acceptAll :: sink where
  "acceptAll ws n = Accepted"

definition exampleOrder :: "(NodeID \<rightharpoonup> node) \<Rightarrow> NodeID list" where
  "exampleOrder tcl = filter (\<lambda>k. tcl k \<noteq> None) [77]"

definition exampleState :: State where
  "exampleState =
     \<lparr>newNodeID = 1000, writer = [], nodes = 0, ways = 0, relations = 0, stats = newElementStats,
      junctionPointsFound = 0, turningCirclePointsFound = 0, turningLoopPointsFound = 0,
      turningCircleLoop = Map.empty, turningCircleLoopModified = 0\<rparr>"

text \<open>
  Decimal numerals with an optional minus sign, within the range of \<open>int64\<close>: texts that
  \<open>strconv.ParseInt\<close> reads as the integers they denote. Every other text is taken as not
  an integer here.
\<close>

definition digitValue :: "char \<Rightarrow> nat option" where
  "digitValue c =
     map_of [(CHR ''0'', 0), (CHR ''1'', 1), (CHR ''2'', 2), (CHR ''3'', 3), (CHR ''4'', 4),
             (CHR ''5'', 5), (CHR ''6'', 6), (CHR ''7'', 7), (CHR ''8'', 8), (CHR ''9'', 9)] c"

fun digitsValue :: "string \<Rightarrow> nat \<Rightarrow> nat option" where
  "digitsValue [] acc = Some acc"
| "digitsValue (c # cs) acc =
     (case digitValue c of None \<Rightarrow> None | Some d \<Rightarrow> digitsValue cs (10 * acc + d))"

definition decimal :: "string \<Rightarrow> 64 word option" where
  "decimal s =
     (case s of
        [] \<Rightarrow> None
      | c # cs \<Rightarrow>
          if c = CHR ''-'' then
            (if cs = [] then None
             else case digitsValue cs 0 of
                    None \<Rightarrow> None
                  | Some n \<Rightarrow> if n \<le> 2 ^ 63 then Some (- of_nat n) else None)
          else
            (case digitsValue s 0 of
               None \<Rightarrow> None
             | Some n \<Rightarrow> if n < 2 ^ 63 then Some (of_nat n) else None))"

definition exampleCommandLine :: "string \<Rightarrow> CommandLine" where
  "exampleCommandLine start =
     \<lparr>wellFormed = True, inputOSMArg = Some ''osmdata.pbf'', outputNodesArg = Some ''osmpp.xml'',
      startNodeArg = Some start\<rparr>"

definition exampleEnv :: "Object list \<Rightarrow> Env" where
  "exampleEnv objs =
     \<lparr>parseInt = decimal, openInputOk = True, openOutputOk = True, writeHeaderOk = True,
      scanned = objs, scannerErr = False, outputSink = acceptAll, rangeOrder = exampleOrder,
      finishOk = True\<rparr>"

text \<open>
  The junction node of the comment in main.go, with tag lists to choose from: the tags
  of the comment, the two tags of the specification's example, and tags with \<open>icn_ref\<close>
  after \<open>rcn_ref\<close>.
\<close>

definition exampleJunction :: "Tag list \<Rightarrow> node" where
  "exampleJunction ts =
     \<lparr>ID = 355939532, Lat = 52, Lon = 7, User = [], UserID = 0, Visible = True, Version = 8,
      ChangesetID = 0, Timestamp = 1568357445, Tags = ts, Committed = None\<rparr>"

definition tagsRcnRwn :: "Tag list" where
  "tagsRcnRwn =
     [\<lparr>Key = ''expected_rcn_route_relations'', Value = ''3''\<rparr>,
      \<lparr>Key = ''network:type'', Value = ''node_network''\<rparr>,
      \<lparr>Key = ''rcn:name'', Value = ''Spechtholtshook''\<rparr>,
      \<lparr>Key = ''rcn_ref'', Value = ''53''\<rparr>,
      \<lparr>Key = ''rwn_ref'', Value = ''X32''\<rparr>]"

definition tagsRcn :: "Tag list" where
  "tagsRcn = [\<lparr>Key = ''network:type'', Value = ''node_network''\<rparr>, \<lparr>Key = ''rcn_ref'', Value = ''53''\<rparr>]"

definition tagsIcnRcn :: "Tag list" where
  "tagsIcnRcn =
     [\<lparr>Key = ''rcn_ref'', Value = ''53''\<rparr>, \<lparr>Key = ''network:type'', Value = ''node_network''\<rparr>,
      \<lparr>Key = ''icn_ref'', Value = ''7''\<rparr>]"

text \<open>
  A turning node with the identifier 77, with tag lists to choose from (a turning
  circle, a turning loop, a turning circle that arrives with a tag \<open>fzk_turning\<close> of its
  own, and one that arrives with two); a way that references the node twice, a table that
  holds the turning circle, and the tag that a service road gives it.
\<close>

definition exampleTurning :: "Tag list \<Rightarrow> node" where
  "exampleTurning ts =
     \<lparr>ID = 77, Lat = 52, Lon = 7, User = [], UserID = 0, Visible = True, Version = 1,
      ChangesetID = 0, Timestamp = 1599264000, Tags = ts, Committed = None\<rparr>"

definition tagsTurningCircle :: "Tag list" where
  "tagsTurningCircle = [\<lparr>Key = ''highway'', Value = ''turning_circle''\<rparr>]"


definition exampleWay :: "string \<Rightarrow> Way" where
  "exampleWay h =
     \<lparr>WayID = 5, WayVersion = 1, Nodes = [77, 77], WayTags = [\<lparr>Key = ''highway'', Value = h\<rparr>]\<rparr>"

definition tagsOwnFzk :: "Tag list" where
  "tagsOwnFzk =
     [\<lparr>Key = ''highway'', Value = ''turning_circle''\<rparr>, \<lparr>Key = ''fzk_turning'', Value = ''service''\<rparr>]"


definition exampleTable :: "NodeID \<rightharpoonup> node" where
  "exampleTable = [77 \<mapsto> exampleTurning tagsTurningCircle]"

definition serviceTag :: Tag where
  "serviceTag = \<lparr>Key = ''fzk_turning'', Value = ''service''\<rparr>"

text \<open>
  A store with one record, the node 77 as a turning circle and a junction of the bicycle
  network, with its three tags in an array of capacity 4; and a growth policy that gives
  every new array one element more than needed.
\<close>

definition heapExample :: HeapState where
  "heapExample =
     \<lparr>cells = [\<lparr>ID = 77, Lat = 52, Lon = 7, User = [], UserID = 0, Visible = True, Version = 1,
               ChangesetID = 0, Timestamp = 1599264000, Tags = \<lparr>arr = 0, len = 3, cap = 4\<rparr>,
               Committed = None\<rparr>],
      arrays = [[\<lparr>Key = ''highway'', Value = ''turning_circle''\<rparr>,
                 \<lparr>Key = ''network:type'', Value = ''node_network''\<rparr>,
                 \<lparr>Key = ''rcn_ref'', Value = ''53''\<rparr>,
                 \<lparr>Key = [], Value = []\<rparr>]],
      hNewNodeID = 1000, hWriter = [], hNodes = 0, hStats = newElementStats,
      hJunctionPointsFound = 0,
      hTurningCirclePointsFound = 0, hTurningLoopPointsFound = 0, hTurningCircleLoop = Map.empty\<rparr>"

definition oneSlack :: "nat \<Rightarrow> nat" where
  "oneSlack c = 1"

section \<open>Properties\<close>

subsection \<open>Outcomes\<close>

lemma finalState_simps [simp]:
  "finalState (Inr st) = st"
  "finalState (Inl (e, st)) = st"
  by (simp_all add: finalState_def)

lemma returned_simps [simp]:
  "returned (Inr st)"
  "\<not> returned (Inl x)"
  by (simp_all add: returned_def)

lemma returned_iff: "returned r \<longleftrightarrow> (\<exists>st. r = Inr st)"
  by (cases r) simp_all

lemma finalState_bind_err:
  "finalState (bind_err m f) = (case m of Inl x \<Rightarrow> snd x | Inr st \<Rightarrow> finalState (f st))"
  by (cases m) (auto simp: bind_err_def)

subsection \<open>Element identifiers and statistics\<close>

lemma typeMask_bits: "typeMask = push_bit 56 (mask 7)"
  by (simp add: typeMask_def mask_eq_exp_minus_1 push_bit_eq_mult)

lemma versionMask_bits: "versionMask = mask 16"
  by (simp add: versionMask_def mask_eq_exp_minus_1)

lemma accepted_bits: "idAccepted i \<Longrightarrow> bit i m \<Longrightarrow> m < 40"
proof -
  assume a: "idAccepted i" and b: "bit i m"
  have "take_bit 40 i = i"
    using a by (simp add: idAccepted_def less_mask_eq take_bit_eq_mask)
  then have "bit (take_bit 40 i) m" using b by simp
  then show "m < 40" by (simp add: bit_take_bit_iff)
qed

lemma packed_type:
  assumes "idAccepted i"
  shows "(push_bit 16 i OR (versionMask AND v)) AND typeMask = 0"
proof (rule bit_eqI)
  fix n
  show "bit ((push_bit 16 i OR (versionMask AND v)) AND typeMask) n = bit (0 :: 64 word) n"
    using accepted_bits [OF assms, of "n - 16"]
    by (auto simp: typeMask_bits versionMask_bits bit_simps)
qed

lemma elementType_packed:
  assumes "idAccepted i"
  shows "elementID kind i v AND typeMask = kind AND typeMask"
proof -
  have "elementID kind i v = kind OR (push_bit 16 i OR (versionMask AND v))"
    by (simp add: elementID_def or.assoc)
  moreover have "(kind OR (push_bit 16 i OR (versionMask AND v))) AND typeMask =
      (kind AND typeMask) OR ((push_bit 16 i OR (versionMask AND v)) AND typeMask)"
    by (rule bit.conj_disj_distrib2)
  ultimately show ?thesis
    by (simp only: packed_type [OF assms]) simp
qed

text \<open>
  An identifier from 0 to \<open>2^40 - 1\<close> keeps the type bits of the element identifier as
  they are, so \<open>Type()\<close> returns for it.
\<close>

lemma elementType_node: "idAccepted i \<Longrightarrow> elementType (elementID nodeMask i v) = Some TypeNode"
  by (simp add: elementType_def elementType_packed)
     (simp add: nodeMask_def wayMask_def relationMask_def typeMask_def)

lemma elementType_way: "idAccepted i \<Longrightarrow> elementType (elementID wayMask i v) = Some TypeWay"
  by (simp add: elementType_def elementType_packed)
     (simp add: nodeMask_def wayMask_def relationMask_def typeMask_def)

lemma elementType_relation:
  "idAccepted i \<Longrightarrow> elementType (elementID relationMask i v) = Some TypeRelation"
  by (simp add: elementType_def elementType_packed)
     (simp add: nodeMask_def wayMask_def relationMask_def typeMask_def)

lemma elementType_zero: "elementType 0 = None"
  by (simp add: elementType_def nodeMask_def wayMask_def relationMask_def)

lemma minus_one_word: "(- 1 :: 64 word) = 18446744073709551615"
  by simp


lemma elementType_two_40: "elementType (elementID kind (2 ^ 40) v) = None"
proof -
  have "bit (elementID kind (2 ^ 40) v AND typeMask) 56"
    by (simp add: elementID_def typeMask_bits bit_simps)
  moreover have "\<not> bit nodeMask 56" "\<not> bit wayMask 56" "\<not> bit relationMask 56"
    by (simp_all add: nodeMask_def wayMask_def relationMask_def bit_numeral_word_iff)
  ultimately show ?thesis
    by (auto simp: elementType_def)
qed

lemma elementType_two_40_numeral: "elementType (elementID kind 1099511627776 v) = None"
  using elementType_two_40 [of kind v] by simp

lemma elementStats_Add_None: "elementStats_Add eid tags s = None \<longleftrightarrow> elementType eid = None"
  by (simp add: elementStats_Add_def Let_def split: option.splits)

lemma elementStats_Add_node:
  "idAccepted (ID e) \<Longrightarrow> \<exists>s'. elementStats_Add (nodeElementID e) tags s = Some s'"
  using elementStats_Add_None [of "nodeElementID e" tags s] elementType_node [of "ID e" "Version e"]
  by (cases "elementStats_Add (nodeElementID e) tags s") (simp_all add: nodeElementID_def)

lemma elementStats_Add_way:
  "idAccepted (WayID e) \<Longrightarrow> \<exists>s'. elementStats_Add (wayElementID e) tags s = Some s'"
  using elementStats_Add_None [of "wayElementID e" tags s] elementType_way [of "WayID e" "WayVersion e"]
  by (cases "elementStats_Add (wayElementID e) tags s") (simp_all add: wayElementID_def)

lemma elementStats_Add_relation:
  "idAccepted (RelationID e) \<Longrightarrow> \<exists>s'. elementStats_Add (relationElementID e) tags s = Some s'"
  using elementStats_Add_None [of "relationElementID e" tags s]
    elementType_relation [of "RelationID e" "RelationVersion e"]
  by (cases "elementStats_Add (relationElementID e) tags s") (simp_all add: relationElementID_def)

text \<open>
  \<open>Add\<close> keeps \<open>MaxTagsID\<close> an identifier with a type once \<open>MaxTags\<close> is positive, and
  makes \<open>MaxTags\<close> positive when the object has a tag.
\<close>

lemma elementStats_Add_sound:
  assumes "elementStats_Add eid tags s = Some s'" and "statsSound s"
  shows "statsSound s'" and "tags \<noteq> [] \<Longrightarrow> statsTagged s'" and "statsTagged s \<Longrightarrow> statsTagged s'"
proof -
  have pos: "tags \<noteq> [] \<Longrightarrow> \<not> MaxTags s < length tags \<Longrightarrow> 0 < MaxTags s"
    by (cases tags) simp_all
  show "statsSound s'"
    using assms
    by (auto simp: elementStats_Add_def statsSound_def Let_def split: option.splits if_splits)
  show "tags \<noteq> [] \<Longrightarrow> statsTagged s'"
    using assms pos
    by (auto simp: elementStats_Add_def statsSound_def statsTagged_def Let_def
        split: option.splits if_splits)
  show "statsTagged s \<Longrightarrow> statsTagged s'"
    using assms
    by (auto simp: elementStats_Add_def statsSound_def statsTagged_def Let_def
        split: option.splits if_splits)
qed

lemma statsSound_new [simp]: "statsSound newElementStats"
  by (simp add: statsSound_def newElementStats_def)

lemma statisticsOutput_tagged: "statsTagged (stats st) \<Longrightarrow> statisticsOutput st = Inr st"
  by (auto simp: statisticsOutput_def statsTagged_def split: option.splits)

lemma statisticsOutput_final [simp]: "finalState (statisticsOutput st) = st"
  by (simp add: statisticsOutput_def finalState_def split: option.splits)

subsection \<open>Node synthesis\<close>

lemma idsFrom_Suc: "idsFrom c (Suc n) = c # idsFrom (c + 1) n"
proof -
  have "[0..<Suc n] = 0 # map Suc [0..<n]"
    by (simp add: upt_conv_Cons map_Suc_upt del: upt_Suc)
  then show ?thesis
    by (simp add: idsFrom_def comp_def add.assoc del: upt_Suc)
qed

lemma idsFrom_add: "idsFrom c (m + n) = idsFrom c m @ idsFrom (c + of_nat m) n"
proof (induction m arbitrary: c)
  case 0
  then show ?case by (simp add: idsFrom_def)
next
  case (Suc m)
  have "idsFrom c (Suc m + n) = c # idsFrom (c + 1) (m + n)"
    using idsFrom_Suc [of c "m + n"] by simp
  then show ?case
    by (simp add: Suc idsFrom_Suc add.assoc)
qed

lemma derivedAll_append:
  "derivedAll src c (rs @ rs') = derivedAll src c rs @ derivedAll src (c + of_nat (length rs)) rs'"
  by (induction src c rs rule: derivedAll.induct) (auto simp: add.assoc)

lemma derivedAll_ids: "map ID (derivedAll src c rs) = idsFrom c (length rs)"
proof (induction src c rs rule: derivedAll.induct)
  case (1 src c)
  then show ?case by (simp add: idsFrom_def)
next
  case (2 src c label v rs)
  then show ?case
    using idsFrom_Suc [of c "length rs"] by (simp add: derived_def)
qed

lemma length_derivedAll [simp]: "length (derivedAll src c rs) = length rs"
  by (induction src c rs rule: derivedAll.induct) auto

lemma emitAll_Nil [simp]: "emitAll src [] st = st"
  by (simp add: emitAll_def)

lemma emitAll_append: "emitAll src (rs @ rs') st = emitAll src rs' (emitAll src rs st)"
  by (simp add: emitAll_def derivedAll_append add.assoc)

lemma alwaysAccepts_acceptAll [simp]: "alwaysAccepts acceptAll"
  by (simp add: alwaysAccepts_def acceptAll_def)

lemma writeNewNodeObject_accept:
  "alwaysAccepts snk \<Longrightarrow>
   writeNewNodeObject snk n st =
     Inr (st\<lparr>newNodeID := newNodeID st + 1, writer := writer st @ [n\<lparr>ID := newNodeID st\<rparr>]\<rparr>)"
  by (simp add: writeNewNodeObject_def alwaysAccepts_def Let_def)

lemma appendAndWrite_accept:
  "alwaysAccepts snk \<Longrightarrow>
   appendAndWrite snk (src\<lparr>ID := 0, Tags := []\<rparr>) label v st = Inr (emitAll src [(label, v)] st)"
  by (simp add: appendAndWrite_def writeNewNodeObject_def alwaysAccepts_def derived_def Let_def emitAll_def)

lemma networkBicycle_accept:
  "alwaysAccepts snk \<Longrightarrow>
   networkBicycle snk src tags st =
     Inr (emitAll src (request ''node_bicycle''
            (firstPresent tags [''icn_ref'', ''ncn_ref'', ''rcn_ref'', ''lcn_ref''])) st)"
  by (simp add: networkBicycle_def appendAndWrite_accept request_def split: option.splits)

lemma networkHiking_accept:
  "alwaysAccepts snk \<Longrightarrow>
   networkHiking snk src tags st =
     Inr (emitAll src (request ''node_hiking''
            (firstPresent tags [''iwn_ref'', ''nwn_ref'', ''rwn_ref'', ''lwn_ref''])) st)"
  by (simp add: networkHiking_def appendAndWrite_accept request_def split: option.splits)

lemma networkSingle_accept:
  "alwaysAccepts snk \<Longrightarrow>
   networkSingle k label snk src tags st = Inr (emitAll src (request label (tags k)) st)"
  by (simp add: networkSingle_def appendAndWrite_accept request_def split: option.splits)

lemma createNewNodeNetworkObject_accept:
  "alwaysAccepts snk \<Longrightarrow>
   createNewNodeNetworkObject snk src st = Inr (emitAll src (requests (TagMap (Tags src))) st)"
  by (simp add: createNewNodeNetworkObject_def bind_err_def networkBicycle_accept
      networkHiking_accept networkSingle_accept requests_def emitAll_append Let_def)


text \<open>
  With any sink: what a section and the whole of \<open>createNewNodeNetworkObject\<close> can end
  with.
\<close>

lemma synthOutcome_Nil: "synthOutcome src [] st (Inr st)"
  by (simp add: synthOutcome_def)

lemma appendAndWrite_outcome:
  "synthOutcome src [(label, v)] st (appendAndWrite snk (src\<lparr>ID := 0, Tags := []\<rparr>) label v st)"
  by (auto simp: synthOutcome_def appendAndWrite_def writeNewNodeObject_def emitAll_def
        derived_def Let_def split: sinkResult.split)

lemma networkBicycle_outcome:
  "synthOutcome src (request ''node_bicycle''
       (firstPresent tags [''icn_ref'', ''ncn_ref'', ''rcn_ref'', ''lcn_ref''])) st
     (networkBicycle snk src tags st)"
  by (simp add: networkBicycle_def request_def synthOutcome_Nil appendAndWrite_outcome
      split: option.splits)

lemma networkHiking_outcome:
  "synthOutcome src (request ''node_hiking''
       (firstPresent tags [''iwn_ref'', ''nwn_ref'', ''rwn_ref'', ''lwn_ref''])) st
     (networkHiking snk src tags st)"
  by (simp add: networkHiking_def request_def synthOutcome_Nil appendAndWrite_outcome
      split: option.splits)

lemma networkSingle_outcome:
  "synthOutcome src (request label (tags k)) st (networkSingle k label snk src tags st)"
  by (simp add: networkSingle_def request_def synthOutcome_Nil appendAndWrite_outcome
      split: option.splits)

lemma synthOutcome_bind:
  assumes m: "synthOutcome src rs st m"
    and f: "\<And>s. synthOutcome src rs' s (f s)"
  shows "synthOutcome src (rs @ rs') st (bind_err m f)"
proof -
  from m consider (ret) "m = Inr (emitAll src rs st)"
    | (dead) k err where "k < length rs"
        "m = Inl (err, (emitAll src (take k rs) st)\<lparr>newNodeID := newNodeID st + of_nat k + 1\<rparr>)"
    unfolding synthOutcome_def by blast
  then show ?thesis
  proof cases
    case ret
    from f [of "emitAll src rs st"]
    consider (ret2) "f (emitAll src rs st) = Inr (emitAll src rs' (emitAll src rs st))"
      | (dead2) k err where "k < length rs'"
          "f (emitAll src rs st) =
             Inl (err, (emitAll src (take k rs') (emitAll src rs st))
                    \<lparr>newNodeID := newNodeID (emitAll src rs st) + of_nat k + 1\<rparr>)"
      unfolding synthOutcome_def by blast
    then show ?thesis
    proof cases
      case ret2
      with ret show ?thesis
        by (simp add: synthOutcome_def bind_err_def emitAll_append)
    next
      case dead2
      have "length rs + k < length (rs @ rs')"
        using dead2(1) by simp
      moreover have "bind_err m f =
          Inl (err, (emitAll src (take (length rs + k) (rs @ rs')) st)
                 \<lparr>newNodeID := newNodeID st + of_nat (length rs + k) + 1\<rparr>)"
        using ret dead2(2) by (simp add: bind_err_def emitAll_append) (simp add: emitAll_def add.assoc)
      ultimately show ?thesis
        unfolding synthOutcome_def by blast
    qed
  next
    case dead
    have "k < length (rs @ rs')"
      using dead(1) by simp
    moreover have "bind_err m f =
        Inl (err, (emitAll src (take k (rs @ rs')) st)\<lparr>newNodeID := newNodeID st + of_nat k + 1\<rparr>)"
      using dead by (simp add: bind_err_def)
    ultimately show ?thesis
      unfolding synthOutcome_def by blast
  qed
qed

lemma createNewNodeNetworkObject_outcome:
  "synthOutcome src (requests (TagMap (Tags src))) st (createNewNodeNetworkObject snk src st)"
  unfolding createNewNodeNetworkObject_def requests_def Let_def
  by (intro synthOutcome_bind networkBicycle_outcome networkHiking_outcome networkSingle_outcome)

text \<open>
  Whatever the outcome, the state it ends in has the records of some of the requests
  appended, in their order, and is otherwise unchanged but for the counter.
\<close>

lemma synthOutcome_final:
  assumes "synthOutcome src rs st r"
  shows "\<exists>k \<le> length rs.
           writer (finalState r) = writer st @ derivedAll src (newNodeID st) (take k rs) \<and>
           (\<forall>st'. r = Inr st' \<longrightarrow> k = length rs \<and> newNodeID st' = newNodeID st + of_nat k)"
    and "turningCircleLoop (finalState r) = turningCircleLoop st"
    and "stats (finalState r) = stats st"
  using assms
  by (auto simp: synthOutcome_def finalState_def emitAll_def intro: less_imp_le)

lemma synthOutcome_Inr: "synthOutcome src rs st (Inr st') \<Longrightarrow> st' = emitAll src rs st"
  by (auto simp: synthOutcome_def)

text \<open>The node case of \<open>main\<close>: when \<open>stats.Add\<close> panics, and with a sink that accepts.\<close>

lemma processNode_panic:
  "elementType (nodeElementID e) = None \<Longrightarrow>
   processNode snk e st = Inl (Panic, st\<lparr>nodes := nodes st + 1\<rparr>)"
  using elementStats_Add_None [of "nodeElementID e" "Tags e" "stats st"]
  by (simp add: processNode_def Let_def)

lemma registerTurning_table:
  "turningCircleLoop (registerTurning e (TagMap (Tags e)) st) =
     (if isTurning e then (turningCircleLoop st)(ID e \<mapsto> e) else turningCircleLoop st)"
  by (simp add: registerTurning_def isTurning_def Let_def split: option.splits)

lemma registerTurning_fields [simp]:
  "writer (registerTurning e tags st) = writer st"
  "newNodeID (registerTurning e tags st) = newNodeID st"
  "stats (registerTurning e tags st) = stats st"
  by (simp_all add: registerTurning_def Let_def split: option.splits)

lemma processNode_accept:
  assumes "alwaysAccepts snk" and "idAccepted (ID e)"
  shows "\<exists>st'. processNode snk e st = Inr st' \<and>
           writer st' = writer st @ synthesized e (newNodeID st) \<and>
           newNodeID st' = newNodeID st + of_nat (length (synthesized e (newNodeID st))) \<and>
           turningCircleLoop st' =
             (if isTurning e then (turningCircleLoop st)(ID e \<mapsto> e) else turningCircleLoop st) \<and>
           elementStats_Add (nodeElementID e) (Tags e) (stats st) = Some (stats st')"
proof -
  from elementStats_Add_node [OF assms(2)]
  obtain s where s: "elementStats_Add (nodeElementID e) (Tags e) (stats st) = Some s"
    by blast
  show ?thesis
  proof (cases "TagMap (Tags e) = Map.empty")
    case True
    then show ?thesis
      by (simp add: processNode_def s synthesized_def isTurning_def Let_def)
  next
    case False
    then show ?thesis
      by (simp add: processNode_def s synthesized_def Let_def bind_err_def registerTurning_table
          createNewNodeNetworkObject_accept [OF assms(1)] emitAll_def)
  qed
qed

lemma requests_single:
  assumes "k \<in> set referenceKeys" "tags k = Some v"
    "\<forall>k' \<in> set referenceKeys. k' \<noteq> k \<longrightarrow> tags k' = None"
  shows "requests tags = [(categoryLabel k, v)]"
proof -
  from assms(3) have others: "\<And>k'. k' \<in> set referenceKeys \<Longrightarrow> k' \<noteq> k \<Longrightarrow> tags k' = None"
    by blast
  from assms(1) have
    "k = ''icn_ref'' \<or> k = ''ncn_ref'' \<or> k = ''rcn_ref'' \<or> k = ''lcn_ref'' \<or>
     k = ''iwn_ref'' \<or> k = ''nwn_ref'' \<or> k = ''rwn_ref'' \<or> k = ''lwn_ref'' \<or>
     k = ''rin_ref'' \<or> k = ''rhn_ref'' \<or> k = ''rpn_ref'' \<or> k = ''rmn_ref''"
    unfolding referenceKeys_def by simp
  then show ?thesis
  proof (elim disjE)
    assume "k = ''icn_ref''" with assms(2) others show ?thesis
      by (simp add: requests_def request_def categoryLabel_def referenceKeys_def)
  next
    assume "k = ''ncn_ref''" with assms(2) others show ?thesis
      by (simp add: requests_def request_def categoryLabel_def referenceKeys_def)
  next
    assume "k = ''rcn_ref''" with assms(2) others show ?thesis
      by (simp add: requests_def request_def categoryLabel_def referenceKeys_def)
  next
    assume "k = ''lcn_ref''" with assms(2) others show ?thesis
      by (simp add: requests_def request_def categoryLabel_def referenceKeys_def)
  next
    assume "k = ''iwn_ref''" with assms(2) others show ?thesis
      by (simp add: requests_def request_def categoryLabel_def referenceKeys_def)
  next
    assume "k = ''nwn_ref''" with assms(2) others show ?thesis
      by (simp add: requests_def request_def categoryLabel_def referenceKeys_def)
  next
    assume "k = ''rwn_ref''" with assms(2) others show ?thesis
      by (simp add: requests_def request_def categoryLabel_def referenceKeys_def)
  next
    assume "k = ''lwn_ref''" with assms(2) others show ?thesis
      by (simp add: requests_def request_def categoryLabel_def referenceKeys_def)
  next
    assume "k = ''rin_ref''" with assms(2) others show ?thesis
      by (simp add: requests_def request_def categoryLabel_def referenceKeys_def)
  next
    assume "k = ''rhn_ref''" with assms(2) others show ?thesis
      by (simp add: requests_def request_def categoryLabel_def referenceKeys_def)
  next
    assume "k = ''rpn_ref''" with assms(2) others show ?thesis
      by (simp add: requests_def request_def categoryLabel_def referenceKeys_def)
  next
    assume "k = ''rmn_ref''" with assms(2) others show ?thesis
      by (simp add: requests_def request_def categoryLabel_def referenceKeys_def)
  qed
qed


text \<open>
  Claim C1. A node whose tag map has \<open>network:type = node_network\<close> and exactly one of the
  reference keys: provided the sink accepts the record, \<open>createNewNodeNetworkObject\<close>
  writes exactly one record. That record is the source node with the identifier replaced
  by the counter and the tags replaced by the two tags
  \<open>node_network = <label of the key's category>\<close> and \<open>name = <value of the key>\<close>;
  latitude, longitude and all other fields are those of the source node. The counter goes
  up by one. The node case of \<open>main\<close> calls \<open>stats.Add\<close> before it calls
  \<open>createNewNodeNetworkObject\<close>: for a node with an identifier from 0 to \<open>2^40 - 1\<close> it
  writes this record as well, and for a node whose element identifier has no type it
  panics in \<open>stats.Add\<close> and writes nothing.
\<close>

theorem C1_single_reference_key:
  assumes "alwaysAccepts snk"
    and "TagMap (Tags e) ''network:type'' = Some ''node_network''"
    and "k \<in> set referenceKeys"
    and "TagMap (Tags e) k = Some v"
    and "\<forall>k' \<in> set referenceKeys. k' \<noteq> k \<longrightarrow> TagMap (Tags e) k' = None"
  shows "(let d = e\<lparr>ID := newNodeID st,
                     Tags := [\<lparr>Key = ''node_network'', Value = categoryLabel k\<rparr>,
                              \<lparr>Key = ''name'', Value = v\<rparr>]\<rparr>
          in createNewNodeNetworkObject snk e st =
               Inr (st\<lparr>newNodeID := newNodeID st + 1, writer := writer st @ [d]\<rparr>) \<and>
             (idAccepted (ID e) \<longrightarrow>
                (\<exists>st'. processNode snk e st = Inr st' \<and>
                   writer st' = writer st @ [d] \<and> newNodeID st' = newNodeID st + 1)) \<and>
             (elementType (nodeElementID e) = None \<longrightarrow>
                processNode snk e st = Inl (Panic, st\<lparr>nodes := nodes st + 1\<rparr>)) \<and>
             Lat d = Lat e \<and> Lon d = Lon e \<and> User d = User e \<and> UserID d = UserID e \<and>
             Visible d = Visible e \<and> Version d = Version e \<and> ChangesetID d = ChangesetID e \<and>
             Timestamp d = Timestamp e \<and> Committed d = Committed e)"
proof -
  have rs: "requests (TagMap (Tags e)) = [(categoryLabel k, v)]"
    using assms(3-5) by (rule requests_single)
  then have syn: "synthesized e (newNodeID st) =
      [e\<lparr>ID := newNodeID st,
         Tags := [\<lparr>Key = ''node_network'', Value = categoryLabel k\<rparr>, \<lparr>Key = ''name'', Value = v\<rparr>]\<rparr>]"
    using assms(2) by (simp add: synthesized_def derived_def)
  have "\<exists>st'. processNode snk e st = Inr st' \<and>
          writer st' = writer st @
            [e\<lparr>ID := newNodeID st,
               Tags := [\<lparr>Key = ''node_network'', Value = categoryLabel k\<rparr>, \<lparr>Key = ''name'', Value = v\<rparr>]\<rparr>] \<and>
          newNodeID st' = newNodeID st + 1"
    if "idAccepted (ID e)"
    using processNode_accept [OF assms(1) that, of st] syn by auto
  moreover have "createNewNodeNetworkObject snk e st =
      Inr (st\<lparr>newNodeID := newNodeID st + 1,
             writer := writer st @
               [e\<lparr>ID := newNodeID st,
                  Tags := [\<lparr>Key = ''node_network'', Value = categoryLabel k\<rparr>,
                           \<lparr>Key = ''name'', Value = v\<rparr>]\<rparr>]\<rparr>)"
    by (simp add: createNewNodeNetworkObject_accept [OF assms(1)] rs emitAll_def derived_def)
  moreover have "processNode snk e st = Inl (Panic, st\<lparr>nodes := nodes st + 1\<rparr>)"
    if "elementType (nodeElementID e) = None"
    using that by (rule processNode_panic)
  ultimately show ?thesis
    by (simp add: Let_def)
qed

text \<open>
  The example of the specification: tags \<open>network:type = node_network\<close> and \<open>rcn_ref = 53\<close>,
  counter at 1000. The same node with the identifier \<open>2^40\<close>: the node case panics.
\<close>

theorem C1_witness:
  "createNewNodeNetworkObject acceptAll (exampleJunction tagsRcn) exampleState =
     Inr (exampleState\<lparr>newNodeID := 1001,
            writer := [exampleJunction
              [\<lparr>Key = ''node_network'', Value = ''node_bicycle''\<rparr>,
               \<lparr>Key = ''name'', Value = ''53''\<rparr>]\<lparr>ID := 1000\<rparr>]\<rparr>) \<and>
   idAccepted (ID (exampleJunction tagsRcn)) \<and>
   writer (finalState (processNode acceptAll (exampleJunction tagsRcn) exampleState)) =
     [exampleJunction
        [\<lparr>Key = ''node_network'', Value = ''node_bicycle''\<rparr>,
         \<lparr>Key = ''name'', Value = ''53''\<rparr>]\<lparr>ID := 1000\<rparr>] \<and>
   newNodeID (finalState (processNode acceptAll (exampleJunction tagsRcn) exampleState)) = 1001 \<and>
   processNode acceptAll ((exampleJunction tagsRcn)\<lparr>ID := 2 ^ 40\<rparr>) exampleState =
     Inl (Panic, exampleState\<lparr>nodes := 1\<rparr>)"
proof -
  have tm: "TagMap tagsRcn = [''network:type'' \<mapsto> ''node_network'', ''rcn_ref'' \<mapsto> ''53'']"
    by (simp add: TagMap_def tagsRcn_def)
  have "elementType (nodeElementID ((exampleJunction tagsRcn)\<lparr>ID := 2 ^ 40\<rparr>)) = None"
    by (simp add: nodeElementID_def elementType_two_40_numeral)
  with C1_single_reference_key
    [of acceptAll "(exampleJunction tagsRcn)\<lparr>ID := 2 ^ 40\<rparr>" "''rcn_ref''" "''53''" exampleState]
  have pan: "processNode acceptAll ((exampleJunction tagsRcn)\<lparr>ID := 2 ^ 40\<rparr>) exampleState =
     Inl (Panic, exampleState\<lparr>nodes := nodes exampleState + 1\<rparr>)"
    by (simp add: exampleJunction_def tm referenceKeys_def Let_def)
  have acc: "idAccepted (ID (exampleJunction tagsRcn))"
    by (simp add: idAccepted_def exampleJunction_def)
  have "createNewNodeNetworkObject acceptAll (exampleJunction tagsRcn) exampleState =
          Inr (exampleState\<lparr>newNodeID := newNodeID exampleState + 1,
                 writer := writer exampleState @
                   [(exampleJunction tagsRcn)\<lparr>ID := newNodeID exampleState,
                      Tags := [\<lparr>Key = ''node_network'', Value = categoryLabel ''rcn_ref''\<rparr>,
                               \<lparr>Key = ''name'', Value = ''53''\<rparr>]\<rparr>]\<rparr>) \<and>
        (\<exists>st'. processNode acceptAll (exampleJunction tagsRcn) exampleState = Inr st' \<and>
           writer st' = writer exampleState @
             [(exampleJunction tagsRcn)\<lparr>ID := newNodeID exampleState,
                Tags := [\<lparr>Key = ''node_network'', Value = categoryLabel ''rcn_ref''\<rparr>,
                         \<lparr>Key = ''name'', Value = ''53''\<rparr>]\<rparr>] \<and>
           newNodeID st' = newNodeID exampleState + 1)"
    using C1_single_reference_key
      [of acceptAll "exampleJunction tagsRcn" "''rcn_ref''" "''53''" exampleState] acc
    by (simp add: exampleJunction_def tm referenceKeys_def Let_def)
  then show ?thesis
    using acc pan
    by (auto simp: finalState_def exampleJunction_def exampleState_def categoryLabel_def)
qed

lemma isLabelled_derived [simp]: "isLabelled L (derived e c L' v) \<longleftrightarrow> L = L'"
  by (auto simp: isLabelled_def derived_def)

lemma filter_request:
  "filter (isLabelled L) (derivedAll e c (request L' r)) =
     (if L = L' then derivedAll e c (request L' r) else [])"
  by (cases r) (auto simp: request_def)

lemma length_request: "length (request L r) = (case r of None \<Rightarrow> 0 | Some v \<Rightarrow> 1)"
  by (cases r) (auto simp: request_def)

lemma derivedAll_request:
  "derivedAll e c (request L r) = (case r of None \<Rightarrow> [] | Some v \<Rightarrow> [derived e c L v])"
  by (cases r) (auto simp: request_def)

lemma requests_chains:
  "requests tags =
     request ''node_bicycle'' (firstPresent tags bicycleKeys) @
     request ''node_hiking'' (firstPresent tags hikingKeys) @
     request ''node_inline_skates'' (tags ''rin_ref'') @
     request ''node_horse'' (tags ''rhn_ref'') @
     request ''node_canoe'' (tags ''rpn_ref'') @
     request ''node_motorboat'' (tags ''rmn_ref'')"
  unfolding requests_def bicycleKeys_def hikingKeys_def ..

lemma filter_bicycle:
  "filter (isLabelled ''node_bicycle'') (derivedAll e c (requests tags)) =
     (case firstPresent tags bicycleKeys of
        None \<Rightarrow> []
      | Some v \<Rightarrow> [derived e c ''node_bicycle'' v])"
  by (simp add: requests_chains derivedAll_append filter_request)
     (simp add: derivedAll_request)

lemma filter_hiking:
  "filter (isLabelled ''node_hiking'') (derivedAll e c (requests tags)) =
     (case firstPresent tags hikingKeys of
        None \<Rightarrow> []
      | Some v \<Rightarrow>
          [derived e (c + (case firstPresent tags bicycleKeys of None \<Rightarrow> 0 | Some b \<Rightarrow> 1))
             ''node_hiking'' v])"
  by (simp add: requests_chains derivedAll_append filter_request length_request)
     (simp add: derivedAll_request split: option.split)


text \<open>
  Claim C2. A node whose tag map has \<open>network:type = node_network\<close>, with a sink that
  accepts every record. Among the records that \<open>createNewNodeNetworkObject\<close> writes, those
  labelled \<open>node_bicycle\<close> are: none when none of \<open>icn_ref\<close>, \<open>ncn_ref\<close>, \<open>rcn_ref\<close>,
  \<open>lcn_ref\<close> is present, and otherwise exactly one, named by the value of the first of
  these keys that is present, in this order. With \<open>icn_ref\<close> and \<open>rcn_ref\<close> both present
  that is the value of \<open>icn_ref\<close>. The records labelled \<open>node_hiking\<close> are determined in the
  same way by \<open>iwn_ref\<close>, \<open>nwn_ref\<close>, \<open>rwn_ref\<close>, \<open>lwn_ref\<close>. The node case of \<open>main\<close> writes
  the same records for a node with an identifier from 0 to \<open>2^40 - 1\<close>.
\<close>

theorem C2_priority_chain:
  assumes "alwaysAccepts snk"
    and "TagMap (Tags e) ''network:type'' = Some ''node_network''"
  shows "\<exists>out. (\<exists>st'. createNewNodeNetworkObject snk e st = Inr st' \<and> writer st' = writer st @ out) \<and>
           (idAccepted (ID e) \<longrightarrow>
              (\<exists>st'. processNode snk e st = Inr st' \<and> writer st' = writer st @ out)) \<and>
           filter (isLabelled ''node_bicycle'') out =
             (case firstPresent (TagMap (Tags e)) bicycleKeys of
                None \<Rightarrow> []
              | Some v \<Rightarrow>
                  [e\<lparr>ID := newNodeID st,
                     Tags := [\<lparr>Key = ''node_network'', Value = ''node_bicycle''\<rparr>,
                              \<lparr>Key = ''name'', Value = v\<rparr>]\<rparr>]) \<and>
           (\<forall>a b. TagMap (Tags e) ''icn_ref'' = Some a \<and> TagMap (Tags e) ''rcn_ref'' = Some b \<longrightarrow>
              map Tags (filter (isLabelled ''node_bicycle'') out) =
                [[\<lparr>Key = ''node_network'', Value = ''node_bicycle''\<rparr>, \<lparr>Key = ''name'', Value = a\<rparr>]]) \<and>
           filter (isLabelled ''node_hiking'') out =
             (case firstPresent (TagMap (Tags e)) hikingKeys of
                None \<Rightarrow> []
              | Some v \<Rightarrow>
                  [e\<lparr>ID := newNodeID st +
                           (case firstPresent (TagMap (Tags e)) bicycleKeys of None \<Rightarrow> 0 | Some b \<Rightarrow> 1),
                     Tags := [\<lparr>Key = ''node_network'', Value = ''node_hiking''\<rparr>,
                              \<lparr>Key = ''name'', Value = v\<rparr>]\<rparr>])"
proof -
  let ?out = "derivedAll e (newNodeID st) (requests (TagMap (Tags e)))"
  have c: "\<exists>st'. createNewNodeNetworkObject snk e st = Inr st' \<and> writer st' = writer st @ ?out"
    by (simp add: createNewNodeNetworkObject_accept [OF assms(1)] emitAll_def)
  have p: "\<exists>st'. processNode snk e st = Inr st' \<and> writer st' = writer st @ ?out"
    if "idAccepted (ID e)"
    using processNode_accept [OF assms(1) that, of st] assms(2)
    by (auto simp: synthesized_def)
  have b: "filter (isLabelled ''node_bicycle'') ?out =
             (case firstPresent (TagMap (Tags e)) bicycleKeys of
                None \<Rightarrow> []
              | Some v \<Rightarrow>
                  [e\<lparr>ID := newNodeID st,
                     Tags := [\<lparr>Key = ''node_network'', Value = ''node_bicycle''\<rparr>,
                              \<lparr>Key = ''name'', Value = v\<rparr>]\<rparr>])"
    by (simp add: filter_bicycle derived_def split: option.split)
  have i: "map Tags (filter (isLabelled ''node_bicycle'') ?out) =
                [[\<lparr>Key = ''node_network'', Value = ''node_bicycle''\<rparr>, \<lparr>Key = ''name'', Value = a\<rparr>]]"
    if "TagMap (Tags e) ''icn_ref'' = Some a \<and> TagMap (Tags e) ''rcn_ref'' = Some b" for a b
    using that by (simp add: b bicycleKeys_def)
  have h: "filter (isLabelled ''node_hiking'') ?out =
             (case firstPresent (TagMap (Tags e)) hikingKeys of
                None \<Rightarrow> []
              | Some v \<Rightarrow>
                  [e\<lparr>ID := newNodeID st +
                           (case firstPresent (TagMap (Tags e)) bicycleKeys of None \<Rightarrow> 0 | Some b \<Rightarrow> 1),
                     Tags := [\<lparr>Key = ''node_network'', Value = ''node_hiking''\<rparr>,
                              \<lparr>Key = ''name'', Value = v\<rparr>]\<rparr>])"
    by (simp add: filter_hiking derived_def split: option.split)
  from c p b i h show ?thesis by blast
qed

text \<open>
  A node with \<open>rcn_ref = 53\<close> before \<open>icn_ref = 7\<close> in its tag list: the one record written
  is named 7.
\<close>

theorem C2_witness:
  "createNewNodeNetworkObject acceptAll (exampleJunction tagsIcnRcn) exampleState =
     Inr (exampleState\<lparr>newNodeID := 1001,
            writer := [exampleJunction
              [\<lparr>Key = ''node_network'', Value = ''node_bicycle''\<rparr>,
               \<lparr>Key = ''name'', Value = ''7''\<rparr>]\<lparr>ID := 1000\<rparr>]\<rparr>) \<and>
   idAccepted (ID (exampleJunction tagsIcnRcn)) \<and>
   writer (finalState (processNode acceptAll (exampleJunction tagsIcnRcn) exampleState)) =
     [exampleJunction
        [\<lparr>Key = ''node_network'', Value = ''node_bicycle''\<rparr>,
         \<lparr>Key = ''name'', Value = ''7''\<rparr>]\<lparr>ID := 1000\<rparr>]"
proof -
  have tm: "TagMap tagsIcnRcn =
      [''rcn_ref'' \<mapsto> ''53'', ''network:type'' \<mapsto> ''node_network'', ''icn_ref'' \<mapsto> ''7'']"
    by (simp add: TagMap_def tagsIcnRcn_def)
  have acc: "idAccepted (ID (exampleJunction tagsIcnRcn))"
    by (simp add: idAccepted_def exampleJunction_def)
  have "alwaysAccepts acceptAll" by simp
  moreover have "TagMap (Tags (exampleJunction tagsIcnRcn)) ''network:type'' = Some ''node_network''"
    by (simp add: exampleJunction_def tm)
  ultimately have "\<exists>out.
      (\<exists>st'. createNewNodeNetworkObject acceptAll (exampleJunction tagsIcnRcn) exampleState = Inr st' \<and>
         writer st' = writer exampleState @ out) \<and>
      (\<exists>st'. processNode acceptAll (exampleJunction tagsIcnRcn) exampleState = Inr st' \<and>
         writer st' = writer exampleState @ out)"
    using C2_priority_chain [of acceptAll "exampleJunction tagsIcnRcn" exampleState] acc by blast
  then obtain out st' where
    out: "writer (finalState (processNode acceptAll (exampleJunction tagsIcnRcn) exampleState)) =
            writer exampleState @ out"
      "writer (finalState (createNewNodeNetworkObject acceptAll (exampleJunction tagsIcnRcn) exampleState)) =
            writer exampleState @ out"
    by (auto simp: finalState_def)
  have c: "createNewNodeNetworkObject acceptAll (exampleJunction tagsIcnRcn) exampleState =
     Inr (exampleState\<lparr>newNodeID := 1001,
            writer := [exampleJunction
              [\<lparr>Key = ''node_network'', Value = ''node_bicycle''\<rparr>,
               \<lparr>Key = ''name'', Value = ''7''\<rparr>]\<lparr>ID := 1000\<rparr>]\<rparr>)"
    by (simp add: exampleJunction_def tm createNewNodeNetworkObject_def
        bind_err_def networkBicycle_def networkHiking_def networkSingle_def appendAndWrite_def
        writeNewNodeObject_def acceptAll_def exampleState_def Let_def)
  from out c acc show ?thesis
    by (simp add: finalState_def exampleState_def)
qed

subsection \<open>Annotation of turning circles and loops\<close>

lemma fzkTagFound_iff: "fzkTagFound ts \<longleftrightarrow> (\<exists>t \<in> set ts. Key t = ''fzk_turning'')"
  by (induction ts) auto

lemma fzkTagFound_append [simp]: "fzkTagFound (ts @ us) \<longleftrightarrow> fzkTagFound ts \<or> fzkTagFound us"
  by (auto simp: fzkTagFound_iff)

lemma fzkTagFound_annotate1 [simp]: "fzkTagFound (Tags (annotate1 h v))"
  by (simp add: annotate1_def)

lemma annotate1_idem [simp]: "annotate1 h' (annotate1 h v) = annotate1 h v"
  by (simp add: annotate1_def)

lemma finite_pending [simp]: "finite (pending tcl refs)"
  by (simp add: pending_def)

lemma addHighwayTypeLoop_table:
  "fst (addHighwayTypeLoop refs h tcl found) =
     (\<lambda>k. if k \<in> set refs then map_option (annotate1 h) (tcl k) else tcl k)"
proof (induction refs arbitrary: tcl found)
  case Nil
  then show ?case by simp
next
  case (Cons nodeID rest)
  show ?case
    by (cases "tcl nodeID") (auto simp: Cons fun_eq_iff annotate1_def)
qed

lemma addHighwayTypeLoop_found:
  "snd (addHighwayTypeLoop refs h tcl found) = found + card (pending tcl refs)"
proof (induction refs arbitrary: tcl found)
  case Nil
  then show ?case by (simp add: pending_def)
next
  case (Cons nodeID rest)
  show ?case
  proof (cases "tcl nodeID")
    case None
    then have "pending tcl (nodeID # rest) = pending tcl rest"
      by (auto simp: pending_def)
    with None show ?thesis by (simp add: Cons)
  next
    case (Some v)
    show ?thesis
    proof (cases "fzkTagFound (Tags v)")
      case True
      with Some have "pending tcl (nodeID # rest) = pending tcl rest"
        by (auto simp: pending_def)
      with Some True show ?thesis by (simp add: Cons)
    next
      case False
      let ?tcl = "tcl(nodeID \<mapsto> v\<lparr>Tags := Tags v @ [\<lparr>Key = ''fzk_turning'', Value = h\<rparr>]\<rparr>)"
      have a: "pending tcl (nodeID # rest) = insert nodeID (pending ?tcl rest)"
        using Some False by (auto simp: pending_def)
      have b: "nodeID \<notin> pending ?tcl rest"
        by (simp add: pending_def)
      have "snd (addHighwayTypeLoop (nodeID # rest) h tcl found) =
          snd (addHighwayTypeLoop rest h ?tcl (found + 1))"
        using Some False by simp
      also have "\<dots> = found + 1 + card (pending ?tcl rest)"
        by (rule Cons)
      finally show ?thesis using a b by simp
    qed
  qed
qed



lemma annotate1_changes: "annotate1 h v \<noteq> v \<longleftrightarrow> \<not> fzkTagFound (Tags v)"
proof -
  have "v\<lparr>Tags := Tags v @ [\<lparr>Key = ''fzk_turning'', Value = h\<rparr>]\<rparr> \<noteq> v"
  proof
    assume "v\<lparr>Tags := Tags v @ [\<lparr>Key = ''fzk_turning'', Value = h\<rparr>]\<rparr> = v"
    then have "Tags (v\<lparr>Tags := Tags v @ [\<lparr>Key = ''fzk_turning'', Value = h\<rparr>]\<rparr>) = Tags v"
      by simp
    then show False by simp
  qed
  then show ?thesis by (simp add: annotate1_def)
qed

lemma annotate_table:
  "fst (addHighwayTypeToTurningCircleLoop e tags tcl h) =
     (\<lambda>k. if k \<in> set (Nodes e) then map_option (annotate1 h) (tcl k) else tcl k)"
  by (simp add: addHighwayTypeToTurningCircleLoop_def addHighwayTypeLoop_table)

lemma annotate_found:
  "snd (addHighwayTypeToTurningCircleLoop e tags tcl h) = card (pending tcl (Nodes e))"
  by (simp add: addHighwayTypeToTurningCircleLoop_def addHighwayTypeLoop_found)


lemma changed_pending:
  "{k. fst (addHighwayTypeToTurningCircleLoop e tags tcl h) k \<noteq> tcl k} = pending tcl (Nodes e)"
proof -
  have "fst (addHighwayTypeToTurningCircleLoop e tags tcl h) k \<noteq> tcl k \<longleftrightarrow> k \<in> pending tcl (Nodes e)"
    for k
    using annotate1_changes [of h]
    by (cases "tcl k") (auto simp: annotate_table pending_def)
  then show ?thesis by blast
qed

text \<open>
  Claim C8. The way case of \<open>main\<close> counts the way and calls \<open>stats.Add\<close>, which panics for
  an element identifier without a type and returns for a way with an identifier from 0
  to \<open>2^40 - 1\<close>. It then calls \<open>addHighwayTypeToTurningCircleLoop\<close> only when the tag map
  of the way has \<open>highway\<close> with one of the five values \<open>residential\<close>, \<open>living_street\<close>,
  \<open>unclassified\<close>, \<open>service\<close>, \<open>track\<close>; otherwise the table and the counter
  \<open>turningCircleLoopModified\<close> stay as they are. The number a call returns is the number of
  table entries that the call changed, that is, the entries newly annotated.
\<close>

theorem C8_way_filter_and_count:
  "processWay e st =
     (case elementStats_Add (wayElementID e) (WayTags e) (stats st) of
        None \<Rightarrow> Inl (Panic, st\<lparr>ways := ways st + 1\<rparr>)
      | Some s \<Rightarrow>
          Inr (case TagMap (WayTags e) ''highway'' of
                 None \<Rightarrow> st\<lparr>ways := ways st + 1, stats := s\<rparr>
               | Some h \<Rightarrow>
                   if h \<in> qualifying
                   then st\<lparr>ways := ways st + 1, stats := s,
                           turningCircleLoop :=
                             fst (addHighwayTypeToTurningCircleLoop e (TagMap (WayTags e))
                                    (turningCircleLoop st) h),
                           turningCircleLoopModified := turningCircleLoopModified st +
                             snd (addHighwayTypeToTurningCircleLoop e (TagMap (WayTags e))
                                    (turningCircleLoop st) h)\<rparr>
                   else st\<lparr>ways := ways st + 1, stats := s\<rparr>)) \<and>
   (idAccepted (WayID e) \<longrightarrow> elementStats_Add (wayElementID e) (WayTags e) (stats st) \<noteq> None) \<and>
   snd (addHighwayTypeToTurningCircleLoop e tags tcl h) =
     card {k. fst (addHighwayTypeToTurningCircleLoop e tags tcl h) k \<noteq> tcl k}"
proof -
  have "snd (addHighwayTypeToTurningCircleLoop e tags tcl h) =
     card {k. fst (addHighwayTypeToTurningCircleLoop e tags tcl h) k \<noteq> tcl k}"
    by (simp only: changed_pending annotate_found)
  moreover have "processWay e st =
     (case elementStats_Add (wayElementID e) (WayTags e) (stats st) of
        None \<Rightarrow> Inl (Panic, st\<lparr>ways := ways st + 1\<rparr>)
      | Some s \<Rightarrow>
          Inr (case TagMap (WayTags e) ''highway'' of
                 None \<Rightarrow> st\<lparr>ways := ways st + 1, stats := s\<rparr>
               | Some h \<Rightarrow>
                   if h \<in> qualifying
                   then st\<lparr>ways := ways st + 1, stats := s,
                           turningCircleLoop :=
                             fst (addHighwayTypeToTurningCircleLoop e (TagMap (WayTags e))
                                    (turningCircleLoop st) h),
                           turningCircleLoopModified := turningCircleLoopModified st +
                             snd (addHighwayTypeToTurningCircleLoop e (TagMap (WayTags e))
                                    (turningCircleLoop st) h)\<rparr>
                   else st\<lparr>ways := ways st + 1, stats := s\<rparr>))"
    by (cases "TagMap (WayTags e) = Map.empty")
       (simp_all add: processWay_def qualifying_def Let_def split_def split: option.splits)
  moreover have "elementStats_Add (wayElementID e) (WayTags e) (stats st) \<noteq> None"
    if "idAccepted (WayID e)"
    using elementStats_Add_way [OF that, of "WayTags e" "stats st"] by auto
  ultimately show ?thesis by simp
qed

text \<open>
  The way step for a service road that lists the turning circle 77 annotates it and
  counts one; for a footway that lists it nothing but the number of ways and the
  statistics changes.
\<close>

theorem C8_witness:
  "idAccepted (WayID (exampleWay ''service'')) \<and>
   returned (processWay (exampleWay ''service'') (exampleState\<lparr>turningCircleLoop := exampleTable\<rparr>)) \<and>
   turningCircleLoop (finalState
       (processWay (exampleWay ''service'') (exampleState\<lparr>turningCircleLoop := exampleTable\<rparr>))) =
     [77 \<mapsto> exampleTurning (tagsTurningCircle @ [serviceTag])] \<and>
   turningCircleLoopModified (finalState
       (processWay (exampleWay ''service'') (exampleState\<lparr>turningCircleLoop := exampleTable\<rparr>))) = 1 \<and>
   returned (processWay (exampleWay ''footway'') (exampleState\<lparr>turningCircleLoop := exampleTable\<rparr>)) \<and>
   turningCircleLoop (finalState
       (processWay (exampleWay ''footway'') (exampleState\<lparr>turningCircleLoop := exampleTable\<rparr>))) =
     exampleTable \<and>
   turningCircleLoopModified (finalState
       (processWay (exampleWay ''footway'') (exampleState\<lparr>turningCircleLoop := exampleTable\<rparr>))) = 0"
proof -
  let ?st = "exampleState\<lparr>turningCircleLoop := exampleTable\<rparr>"
  have tm: "TagMap (WayTags (exampleWay h)) = [''highway'' \<mapsto> h]" for h
    by (simp add: TagMap_def exampleWay_def)
  have acc: "idAccepted (WayID (exampleWay h))" for h
    by (simp add: idAccepted_def exampleWay_def)
  have 1: "addHighwayTypeToTurningCircleLoop (exampleWay ''service'') [''highway'' \<mapsto> ''service'']
      exampleTable ''service'' =
     ([77 \<mapsto> exampleTurning (tagsTurningCircle @ [serviceTag])], 1)"
    by (simp add: addHighwayTypeToTurningCircleLoop_def exampleWay_def exampleTable_def
        exampleTurning_def tagsTurningCircle_def serviceTag_def)
  note used = C8_way_filter_and_count [of "exampleWay ''service''" ?st]
  from used acc
  have "elementStats_Add (wayElementID (exampleWay ''service'')) (WayTags (exampleWay ''service''))
          (stats ?st) \<noteq> None"
    by blast
  then obtain s where s0: "elementStats_Add (wayElementID (exampleWay ''service''))
      (WayTags (exampleWay ''service'')) (stats ?st) = Some s"
    by auto
  from used have "processWay (exampleWay ''service'') ?st =
     (case elementStats_Add (wayElementID (exampleWay ''service'')) (WayTags (exampleWay ''service''))
             (stats ?st) of
        None \<Rightarrow> Inl (Panic, ?st\<lparr>ways := ways ?st + 1\<rparr>)
      | Some s \<Rightarrow>
          Inr (case TagMap (WayTags (exampleWay ''service'')) ''highway'' of
                 None \<Rightarrow> ?st\<lparr>ways := ways ?st + 1, stats := s\<rparr>
               | Some h \<Rightarrow>
                   if h \<in> qualifying
                   then ?st\<lparr>ways := ways ?st + 1, stats := s,
                           turningCircleLoop :=
                             fst (addHighwayTypeToTurningCircleLoop (exampleWay ''service'')
                                    (TagMap (WayTags (exampleWay ''service'')))
                                    (turningCircleLoop ?st) h),
                           turningCircleLoopModified := turningCircleLoopModified ?st +
                             snd (addHighwayTypeToTurningCircleLoop (exampleWay ''service'')
                                    (TagMap (WayTags (exampleWay ''service'')))
                                    (turningCircleLoop ?st) h)\<rparr>
                   else ?st\<lparr>ways := ways ?st + 1, stats := s\<rparr>))"
    by simp
  then have s: "processWay (exampleWay ''service'') ?st =
      Inr (?st\<lparr>ways := ways ?st + 1, stats := s,
             turningCircleLoop := [77 \<mapsto> exampleTurning (tagsTurningCircle @ [serviceTag])],
             turningCircleLoopModified := turningCircleLoopModified ?st + 1\<rparr>)"
    using s0 by (simp add: tm 1 qualifying_def)
  from elementStats_Add_way [OF acc, of "''footway''" "WayTags (exampleWay ''footway'')" "stats ?st"]
  obtain s' where s': "processWay (exampleWay ''footway'') ?st =
      Inr (?st\<lparr>ways := ways ?st + 1, stats := s'\<rparr>)"
    by (auto simp: processWay_def tm Let_def)
  show ?thesis
    using acc s s' by (simp add: returned_def finalState_def exampleState_def)
qed

text \<open>
  Claim C10. Within one call, however often the way references an identifier: an entry
  without the tag gets exactly one tag \<open>fzk_turning\<close> appended, an entry with the tag stays as
  it is, and the returned number is the number of distinct referenced identifiers whose
  entry had no such tag, so every identifier counts once. A way that references a single
  identifier, any number of times, returns at most 1.
\<close>

theorem C10_duplicate_reference:
  "(tcl k = Some v \<and> \<not> fzkTagFound (Tags v) \<and> k \<in> set (Nodes e) \<longrightarrow>
      fst (addHighwayTypeToTurningCircleLoop e tags tcl h) k =
        Some (v\<lparr>Tags := Tags v @ [\<lparr>Key = ''fzk_turning'', Value = h\<rparr>]\<rparr>)) \<and>
   (tcl k = Some v \<and> fzkTagFound (Tags v) \<longrightarrow>
      fst (addHighwayTypeToTurningCircleLoop e tags tcl h) k = Some v) \<and>
   snd (addHighwayTypeToTurningCircleLoop e tags tcl h) =
     card {k \<in> set (Nodes e). \<exists>v. tcl k = Some v \<and> \<not> fzkTagFound (Tags v)} \<and>
   (set (Nodes e) \<subseteq> {k} \<longrightarrow> snd (addHighwayTypeToTurningCircleLoop e tags tcl h) \<le> 1)"
proof -
  have "card (pending tcl (Nodes e)) \<le> card {k}" if "set (Nodes e) \<subseteq> {k}"
    by (rule card_mono) (use that in \<open>auto simp: pending_def\<close>)
  then show ?thesis
    by (auto simp: annotate_table annotate_found annotate1_def pending_def)
qed

text \<open>
  The way of the example lists the identifier 77 twice: one tag is appended and the call
  returns 1.
\<close>

theorem C10_witness:
  "Nodes (exampleWay ''service'') = [77, 77] \<and>
   addHighwayTypeToTurningCircleLoop (exampleWay ''service'') Map.empty exampleTable ''service'' =
     ([77 \<mapsto> exampleTurning (tagsTurningCircle @ [serviceTag])], 1)"
proof -
  have "snd (addHighwayTypeToTurningCircleLoop (exampleWay ''service'') Map.empty exampleTable ''service'') \<le> 1"
    using C10_duplicate_reference
      [of exampleTable 77 "exampleTurning tagsTurningCircle" "exampleWay ''service''" Map.empty "''service''"]
    by (simp add: exampleWay_def)
  then show ?thesis
    by (simp add: addHighwayTypeToTurningCircleLoop_def exampleWay_def exampleTable_def
        exampleTurning_def tagsTurningCircle_def serviceTag_def)
qed
subsection \<open>The processing loop\<close>

lemma take_derivedAll: "take k (derivedAll src c rs) = derivedAll src c (take k rs)"
proof (induction src c rs arbitrary: k rule: derivedAll.induct)
  case (1 src c)
  then show ?case by simp
next
  case (2 src c label v rs)
  then show ?case by (cases k) simp_all
qed

lemma take_idsFrom: "take k (idsFrom c n) = idsFrom c (min k n)"
proof -
  have "take k [0..<n] = [0..<min k n]"
    by (cases "k \<le> n") (simp_all add: min_def)
  then show ?thesis
    by (simp add: idsFrom_def take_map)
qed

lemma synthesized_ids:
  "map ID (synthesized e c) = idsFrom c (length (synthesized e c))"
  by (simp add: synthesized_def derivedAll_ids idsFrom_def)

text \<open>The node case with any sink: when it returns, and the state it ends in.\<close>

lemma processNode_Inr:
  assumes "processNode snk e st = Inr st'"
  shows "elementStats_Add (nodeElementID e) (Tags e) (stats st) = Some (stats st')"
    and "writer st' = writer st @ synthesized e (newNodeID st)"
    and "newNodeID st' = newNodeID st + of_nat (length (synthesized e (newNodeID st)))"
    and "turningCircleLoop st' =
           (if isTurning e then (turningCircleLoop st)(ID e \<mapsto> e) else turningCircleLoop st)"
proof -
  from assms obtain s where s: "elementStats_Add (nodeElementID e) (Tags e) (stats st) = Some s"
    by (cases "elementStats_Add (nodeElementID e) (Tags e) (stats st)")
       (simp_all add: processNode_def Let_def)
  let ?st1 = "st\<lparr>nodes := nodes st + 1, stats := s\<rparr>"
  let ?tags = "TagMap (Tags e)"
  have all: "stats st' = s \<and> writer st' = writer st @ synthesized e (newNodeID st) \<and>
      newNodeID st' = newNodeID st + of_nat (length (synthesized e (newNodeID st))) \<and>
      turningCircleLoop st' =
        (if isTurning e then (turningCircleLoop st)(ID e \<mapsto> e) else turningCircleLoop st)"
  proof (cases "?tags = Map.empty")
    case True
    with assms s show ?thesis
      by (auto simp: processNode_def Let_def synthesized_def isTurning_def)
  next
    case False
    show ?thesis
    proof (cases "?tags ''network:type'' = Some ''node_network''")
      case net: True
      let ?st2 = "?st1\<lparr>junctionPointsFound := junctionPointsFound ?st1 + 1\<rparr>"
      from assms s False net
      obtain st3 where st3: "createNewNodeNetworkObject snk e ?st2 = Inr st3"
        "st' = registerTurning e ?tags st3"
        by (cases "createNewNodeNetworkObject snk e ?st2")
           (auto simp: processNode_def Let_def bind_err_def)
      have "st3 = emitAll e (requests ?tags) ?st2"
        using createNewNodeNetworkObject_outcome [of e ?st2 snk] st3(1)
        by (simp add: synthOutcome_Inr)
      with st3(2) net show ?thesis
        by (simp add: registerTurning_table emitAll_def synthesized_def)
    next
      case nonet: False
      with assms s False have "st' = registerTurning e ?tags ?st1"
        by (auto simp: processNode_def Let_def bind_err_def)
      with nonet show ?thesis
        by (simp add: registerTurning_table synthesized_def)
    qed
  qed
  from all s show "elementStats_Add (nodeElementID e) (Tags e) (stats st) = Some (stats st')"
    by simp
  from all show "writer st' = writer st @ synthesized e (newNodeID st)" by simp
  from all show "newNodeID st' = newNodeID st + of_nat (length (synthesized e (newNodeID st)))"
    by simp
  from all show "turningCircleLoop st' =
           (if isTurning e then (turningCircleLoop st)(ID e \<mapsto> e) else turningCircleLoop st)"
    by simp
qed

lemma processNode_Inl:
  assumes "processNode snk e st = Inl (err, st')"
  shows "\<exists>k. writer st' = writer st @ take k (synthesized e (newNodeID st))"
    and "turningCircleLoop st' = turningCircleLoop st"
proof -
  let ?tags = "TagMap (Tags e)"
  have "(\<exists>k. writer st' = writer st @ take k (synthesized e (newNodeID st))) \<and>
        turningCircleLoop st' = turningCircleLoop st"
  proof (cases "elementStats_Add (nodeElementID e) (Tags e) (stats st)")
    case None
    with assms have "st' = st\<lparr>nodes := nodes st + 1\<rparr>"
      by (simp add: processNode_def Let_def)
    then have "writer st' = writer st @ take 0 (synthesized e (newNodeID st))"
      "turningCircleLoop st' = turningCircleLoop st"
      by simp_all
    then show ?thesis by blast
  next
    case (Some s)
    let ?st2 = "st\<lparr>nodes := nodes st + 1, stats := s,
                    junctionPointsFound := junctionPointsFound st + 1\<rparr>"
    from assms Some have net: "?tags ''network:type'' = Some ''node_network''"
      and c: "createNewNodeNetworkObject snk e ?st2 = Inl (err, st')"
      by (auto simp: processNode_def Let_def bind_err_def split: if_splits sum.splits)
    from createNewNodeNetworkObject_outcome [of e ?st2 snk] c
    obtain k where "st' = (emitAll e (take k (requests ?tags)) ?st2)
                            \<lparr>newNodeID := newNodeID ?st2 + of_nat k + 1\<rparr>"
      by (auto simp: synthOutcome_def)
    then have "writer st' = writer st @ take k (synthesized e (newNodeID st))"
      "turningCircleLoop st' = turningCircleLoop st"
      using net by (simp_all add: emitAll_def synthesized_def take_derivedAll)
    then show ?thesis by blast
  qed
  then show "\<exists>k. writer st' = writer st @ take k (synthesized e (newNodeID st))"
    and "turningCircleLoop st' = turningCircleLoop st"
    by simp_all
qed

text \<open>The way case and the relation case.\<close>

lemma processWay_Inr:
  assumes "processWay e st = Inr st'"
  shows "elementStats_Add (wayElementID e) (WayTags e) (stats st) = Some (stats st')"
    and "writer st' = writer st"
    and "newNodeID st' = newNodeID st"
    and "turningCircleLoop st' =
     (case TagMap (WayTags e) ''highway'' of
        None \<Rightarrow> turningCircleLoop st
      | Some h \<Rightarrow>
          if h \<in> qualifying
          then fst (addHighwayTypeToTurningCircleLoop e (TagMap (WayTags e)) (turningCircleLoop st) h)
          else turningCircleLoop st)"
  using assms
  by (cases "TagMap (WayTags e) = Map.empty";
      auto simp: processWay_def qualifying_def Let_def split_def split: option.splits)+

lemma processWay_Inl:
  assumes "processWay e st = Inl (err, st')"
  shows "st' = st\<lparr>ways := ways st + 1\<rparr>"
  using assms by (auto simp: processWay_def Let_def split: option.splits)

lemma processRelation_Inr:
  assumes "processRelation e st = Inr st'"
  shows "elementStats_Add (relationElementID e) (RelationTags e) (stats st) = Some (stats st')"
    and "writer st' = writer st"
    and "newNodeID st' = newNodeID st"
    and "turningCircleLoop st' = turningCircleLoop st"
  using assms by (auto simp: processRelation_def Let_def split: option.splits)

lemma processRelation_Inl:
  assumes "processRelation e st = Inl (err, st')"
  shows "st' = st\<lparr>relations := relations st + 1\<rparr>"
  using assms by (auto simp: processRelation_def Let_def split: option.splits)

lemma processWay_accepted:
  "idAccepted (WayID e) \<Longrightarrow> \<exists>st'. processWay e st = Inr st'"
  using elementStats_Add_way [of e "WayTags e" "stats st"]
  by (auto simp: processWay_def Let_def)

lemma processRelation_accepted:
  "idAccepted (RelationID e) \<Longrightarrow> \<exists>st'. processRelation e st = Inr st'"
  using elementStats_Add_relation [of e "RelationTags e" "stats st"]
  by (auto simp: processRelation_def Let_def)

text \<open>
  One step and the whole loop, with a sink that accepts every record and objects whose
  identifiers the statistics accept: the loop returns.
\<close>

lemma processObject_accept:
  assumes "alwaysAccepts snk" and "objectAccepted obj"
  shows "\<exists>st'. processObject snk obj st = Inr st'"
proof (cases obj)
  case (ONode e)
  with processNode_accept [OF assms(1), of e st] assms(2) show ?thesis by auto
next
  case (OWay e)
  with processWay_accepted [of e st] assms(2) show ?thesis by auto
next
  case (ORelation e)
  with processRelation_accepted [of e st] assms(2) show ?thesis by auto
qed

lemma scanLoop_accept:
  assumes "alwaysAccepts snk"
  shows "\<forall>obj \<in> set objs. objectAccepted obj \<Longrightarrow> \<exists>st'. scanLoop snk objs st = Inr st'"
proof (induction objs arbitrary: st)
  case Nil
  then show ?case by simp
next
  case (Cons obj objs)
  from processObject_accept [OF assms, of obj st] Cons.prems
  obtain st1 where 1: "processObject snk obj st = Inr st1" by auto
  from Cons.IH [of st1] Cons.prems
  obtain st2 where 2: "scanLoop snk objs st1 = Inr st2" by auto
  from 1 2 show ?case by simp
qed

lemma scanLoop_append:
  "scanLoop snk (xs @ ys) st = bind_err (scanLoop snk xs st) (scanLoop snk ys)"
  by (induction xs arbitrary: st) (auto simp: bind_err_def split: sum.splits)

lemma scanLoop_single: "scanLoop snk [obj] st = processObject snk obj st"
  by (simp split: sum.splits)

text \<open>The records written are numbered without a gap, however the loop ends.\<close>

lemma numberedNext_extend:
  assumes "numberedNext c st" and "writer st' = writer st @ new"
    and "map ID new = idsFrom (newNodeID st) (length new)"
  shows "numbered c st'"
  using assms by (simp add: numbered_def numberedNext_def idsFrom_add)

lemma processObject_numbered:
  assumes "numberedNext c st"
  shows "processObject snk obj st = Inr st' \<Longrightarrow> numberedNext c st'"
    and "numbered c (finalState (processObject snk obj st))"
proof -
  have ret: "numberedNext c st'" if r: "processObject snk obj st = Inr st'" for st'
  proof (cases obj)
    case (ONode e)
    with r have p: "processNode snk e st = Inr st'" by simp
    have "numbered c st'"
      using numberedNext_extend [OF assms processNode_Inr(2) [OF p] synthesized_ids] .
    moreover have "newNodeID st' = c + of_nat (length (writer st'))"
      using processNode_Inr(2,3) [OF p] assms by (simp add: numberedNext_def add.assoc)
    ultimately show ?thesis by (simp add: numberedNext_def)
  next
    case (OWay e)
    with r have "processWay e st = Inr st'" by simp
    from processWay_Inr(2,3) [OF this] assms show ?thesis
      by (simp add: numberedNext_def numbered_def)
  next
    case (ORelation e)
    with r have "processRelation e st = Inr st'" by simp
    from processRelation_Inr(2,3) [OF this] assms show ?thesis
      by (simp add: numberedNext_def numbered_def)
  qed
  then show "processObject snk obj st = Inr st' \<Longrightarrow> numberedNext c st'" .
  show "numbered c (finalState (processObject snk obj st))"
  proof (cases "processObject snk obj st")
    case (Inr st1)
    with ret [of st1] show ?thesis by (simp add: numberedNext_def)
  next
    case (Inl x)
    obtain err st1 where x: "x = (err, st1)" by (cases x)
    have "numbered c st1"
    proof (cases obj)
      case (ONode e)
      with Inl x have "processNode snk e st = Inl (err, st1)" by simp
      from processNode_Inl(1) [OF this]
      obtain k where k: "writer st1 = writer st @ take k (synthesized e (newNodeID st))" by blast
      have "map ID (take k (synthesized e (newNodeID st))) =
            idsFrom (newNodeID st) (length (take k (synthesized e (newNodeID st))))"
        by (simp add: take_map [symmetric] synthesized_ids take_idsFrom min.commute)
      from numberedNext_extend [OF assms k this] show ?thesis .
    next
      case (OWay e)
      with Inl x have "processWay e st = Inl (err, st1)" by simp
      from processWay_Inl [OF this] assms show ?thesis
        by (simp add: numberedNext_def numbered_def)
    next
      case (ORelation e)
      with Inl x have "processRelation e st = Inl (err, st1)" by simp
      from processRelation_Inl [OF this] assms show ?thesis
        by (simp add: numberedNext_def numbered_def)
    qed
    with Inl x show ?thesis by simp
  qed
qed

lemma scanLoop_numbered:
  "numberedNext c st \<Longrightarrow> scanLoop snk objs st = Inr st' \<Longrightarrow> numberedNext c st'"
  "numberedNext c st \<Longrightarrow> numbered c (finalState (scanLoop snk objs st))"
proof (induction objs arbitrary: st)
  case Nil
  {
    case 1
    then show ?case by simp
  next
    case 2
    then show ?case by (simp add: numberedNext_def)
  }
next
  case (Cons obj objs)
  {
    case 1
    from 1(2) obtain st1 where s: "processObject snk obj st = Inr st1"
      "scanLoop snk objs st1 = Inr st'"
      by (auto split: sum.splits)
    from processObject_numbered(1) [OF 1(1) s(1)] have "numberedNext c st1" .
    from Cons.IH(1) [OF this s(2)] show ?case .
  next
    case 2
    show ?case
    proof (cases "processObject snk obj st")
      case (Inl x)
      with processObject_numbered(2) [OF 2, of snk obj] show ?thesis
        by simp
    next
      case (Inr st1)
      from processObject_numbered(1) [OF 2 Inr] have "numberedNext c st1" .
      from Cons.IH(2) [OF this] Inr show ?thesis by simp
    qed
  }
qed

text \<open>The statistics when the loop returns.\<close>

lemma processObject_stats:
  assumes "processObject snk obj st = Inr st'" and "statsSound (stats st)"
  shows "statsSound (stats st')"
    and "objectTagged obj \<Longrightarrow> statsTagged (stats st')"
    and "statsTagged (stats st) \<Longrightarrow> statsTagged (stats st')"
proof -
  obtain eid tags where a: "elementStats_Add eid tags (stats st) = Some (stats st')"
    and t: "objectTagged obj \<longleftrightarrow> tags \<noteq> []"
  proof (cases obj)
    case (ONode e)
    with assms(1) processNode_Inr(1) [of snk e st st'] that [of "nodeElementID e" "Tags e"]
    show ?thesis by simp
  next
    case (OWay e)
    with assms(1) processWay_Inr(1) [of e st st'] that [of "wayElementID e" "WayTags e"]
    show ?thesis by simp
  next
    case (ORelation e)
    with assms(1) processRelation_Inr(1) [of e st st']
      that [of "relationElementID e" "RelationTags e"]
    show ?thesis by simp
  qed
  from elementStats_Add_sound [OF a assms(2)] t
  show "statsSound (stats st')"
    and "objectTagged obj \<Longrightarrow> statsTagged (stats st')"
    and "statsTagged (stats st) \<Longrightarrow> statsTagged (stats st')"
    by simp_all
qed

lemma scanLoop_stats:
  "scanLoop snk objs st = Inr st' \<Longrightarrow> statsSound (stats st) \<Longrightarrow>
   statsSound (stats st') \<and>
   ((\<exists>obj \<in> set objs. objectTagged obj) \<or> statsTagged (stats st) \<longrightarrow> statsTagged (stats st'))"
proof (induction objs arbitrary: st)
  case Nil
  then show ?case by simp
next
  case (Cons obj objs)
  from Cons.prems(1) obtain st1 where s: "processObject snk obj st = Inr st1"
    "scanLoop snk objs st1 = Inr st'"
    by (auto split: sum.splits)
  note p = processObject_stats [OF s(1) Cons.prems(2)]
  from Cons.IH [OF s(2) p(1)] p(2,3) show ?case
    by auto
qed

text \<open>An object that does not touch the table entry of an identifier leaves it alone.\<close>

lemma processObject_untouched:
  assumes "\<not> touches i obj" "processObject snk obj st = Inr st'"
  shows "turningCircleLoop st' i = turningCircleLoop st i"
proof (cases obj)
  case (ONode e)
  with assms(2) have "processNode snk e st = Inr st'" by simp
  from processNode_Inr(4) [OF this] ONode assms(1) show ?thesis
    by auto
next
  case (OWay e)
  with assms(2) have "processWay e st = Inr st'" by simp
  from processWay_Inr(4) [OF this] OWay assms(1) show ?thesis
    by (auto simp: annotate_table split: option.splits)
next
  case (ORelation e)
  with assms(2) have "processRelation e st = Inr st'" by simp
  from processRelation_Inr(4) [OF this] show ?thesis by simp
qed

lemma scanLoop_untouched:
  "\<forall>obj \<in> set objs. \<not> touches i obj \<Longrightarrow> scanLoop snk objs st = Inr st' \<Longrightarrow>
   turningCircleLoop st' i = turningCircleLoop st i"
proof (induction objs arbitrary: st)
  case Nil
  then show ?case by simp
next
  case (Cons obj objs)
  from Cons.prems(2) obtain st1 where 1: "processObject snk obj st = Inr st1"
    "scanLoop snk objs st1 = Inr st'"
    by (auto split: sum.splits)
  have "turningCircleLoop st1 i = turningCircleLoop st i"
    using processObject_untouched [OF _ 1(1)] Cons.prems(1) by simp
  moreover have "turningCircleLoop st' i = turningCircleLoop st1 i"
    using Cons.IH [OF _ 1(2)] Cons.prems(1) by simp
  ultimately show ?case by simp
qed

lemma TagMap_tagsTurningCircle: "TagMap tagsTurningCircle = [''highway'' \<mapsto> ''turning_circle'']"
  by (simp add: TagMap_def tagsTurningCircle_def)





subsection \<open>The final loop\<close>

lemma map_filter_annotated:
  "tcl k = Some v \<Longrightarrow>
   map (annotate1 h) (List.map_filter (tcl(k \<mapsto> annotate1 h v)) ks) =
   map (annotate1 h) (List.map_filter tcl ks)"
  by (induction ks) (auto split: option.splits)

lemma map_filter_dom:
  "set ks \<subseteq> dom m \<Longrightarrow> List.map_filter m ks = map (\<lambda>k. the (m k)) ks"
  by (induction ks) auto

lemma in_set_map_filter:
  "y \<in> set (List.map_filter f xs) \<longleftrightarrow> (\<exists>x \<in> set xs. f x = Some y)"
  by (induction xs) (auto split: option.splits)

lemma writeTurningLoop_accept:
  assumes "alwaysAccepts snk"
  shows "writeTurningLoop snk ks st =
     Inr (st\<lparr>turningCircleLoop :=
                (\<lambda>k. if k \<in> set ks then map_option (annotate1 ''not_set'') (turningCircleLoop st k)
                     else turningCircleLoop st k),
             writer := writer st @
                map (annotate1 ''not_set'') (List.map_filter (turningCircleLoop st) ks)\<rparr>)"
proof (induction ks arbitrary: st)
  case Nil
  then show ?case by simp
next
  case (Cons k ks)
  show ?case
  proof (cases "turningCircleLoop st k")
    case None
    have "(\<lambda>k'. if k' \<in> set ks then map_option (annotate1 ''not_set'') (turningCircleLoop st k')
                 else turningCircleLoop st k') =
          (\<lambda>k'. if k' \<in> set (k # ks) then map_option (annotate1 ''not_set'') (turningCircleLoop st k')
                 else turningCircleLoop st k')"
      using None by (auto simp: fun_eq_iff)
    with None show ?thesis
      by (simp add: Cons)
  next
    case (Some v)
    let ?v1 = "annotate1 ''not_set'' v"
    let ?st1 = "st\<lparr>turningCircleLoop := (turningCircleLoop st)(k \<mapsto> ?v1)\<rparr>"
    let ?st2 = "?st1\<lparr>writer := writer ?st1 @ [?v1]\<rparr>"
    have step: "writeTurningLoop snk (k # ks) st = writeTurningLoop snk ks ?st2"
      using Some assms by (simp add: annotate1_def alwaysAccepts_def Let_def)
    have t: "(\<lambda>k'. if k' \<in> set ks then map_option (annotate1 ''not_set'') (turningCircleLoop ?st2 k')
                 else turningCircleLoop ?st2 k') =
          (\<lambda>k'. if k' \<in> set (k # ks) then map_option (annotate1 ''not_set'') (turningCircleLoop st k')
                 else turningCircleLoop st k')"
      using Some by (auto simp: fun_eq_iff)
    have w: "map (annotate1 ''not_set'') (List.map_filter (turningCircleLoop ?st2) ks) =
             map (annotate1 ''not_set'') (List.map_filter (turningCircleLoop st) ks)"
      using map_filter_annotated [of "turningCircleLoop st" k v "''not_set''" ks] Some by simp
    show ?thesis
      unfolding step Cons t w using Some by simp
  qed
qed



lemma writeTurningLoop_keeps:
  "turningCircleLoop st k = Some v \<Longrightarrow> fzkTagFound (Tags v) \<Longrightarrow>
   turningCircleLoop (finalState (writeTurningLoop snk ks st)) k = Some v"
proof (induction ks arbitrary: st)
  case Nil
  then show ?case by simp
next
  case (Cons k0 ks)
  show ?case
  proof (cases "turningCircleLoop st k0")
    case None
    with Cons show ?thesis by simp
  next
    case (Some v0)
    let ?v1 = "annotate1 ''not_set'' v0"
    let ?st1 = "st\<lparr>turningCircleLoop := (turningCircleLoop st)(k0 \<mapsto> ?v1)\<rparr>"
    let ?st2 = "?st1\<lparr>writer := writer ?st1 @ [?v1]\<rparr>"
    have t1: "turningCircleLoop ?st1 k = Some v"
      using Cons.prems Some by (cases "k = k0") (auto simp: annotate1_def)
    show ?thesis
    proof (cases "snk (writer st) ?v1")
      case Accepted
      with Some have "writeTurningLoop snk (k0 # ks) st = writeTurningLoop snk ks ?st2"
        by (simp add: annotate1_def Let_def)
      moreover have "turningCircleLoop (finalState (writeTurningLoop snk ks ?st2)) k = Some v"
        using t1 Cons.prems(2) by (intro Cons.IH) simp_all
      ultimately show ?thesis by simp
    next
      case MarshalFailed
      with Some have "finalState (writeTurningLoop snk (k0 # ks) st) = ?st1"
        by (simp add: annotate1_def Let_def)
      with t1 show ?thesis by simp
    next
      case WriteFailed
      with Some have "finalState (writeTurningLoop snk (k0 # ks) st) = ?st1"
        by (simp add: annotate1_def Let_def)
      with t1 show ?thesis by simp
    qed
  qed
qed

lemma writeTurningLoop_written:
  "\<exists>drained. writer (finalState (writeTurningLoop snk ks st)) = writer st @ drained \<and>
     set drained \<subseteq> ran (turningCircleLoop (finalState (writeTurningLoop snk ks st))) \<and>
     newNodeID (finalState (writeTurningLoop snk ks st)) = newNodeID st"
proof (induction ks arbitrary: st)
  case Nil
  then show ?case by simp
next
  case (Cons k0 ks)
  show ?case
  proof (cases "turningCircleLoop st k0")
    case None
    with Cons [of st] show ?thesis by simp
  next
    case (Some v0)
    let ?v1 = "annotate1 ''not_set'' v0"
    let ?st1 = "st\<lparr>turningCircleLoop := (turningCircleLoop st)(k0 \<mapsto> ?v1)\<rparr>"
    let ?st2 = "?st1\<lparr>writer := writer ?st1 @ [?v1]\<rparr>"
    show ?thesis
    proof (cases "snk (writer st) ?v1")
      case Accepted
      with Some have step: "writeTurningLoop snk (k0 # ks) st = writeTurningLoop snk ks ?st2"
        by (simp add: annotate1_def Let_def)
      from Cons [of ?st2]
      obtain drained where d: "writer (finalState (writeTurningLoop snk ks ?st2)) = writer ?st2 @ drained"
        "set drained \<subseteq> ran (turningCircleLoop (finalState (writeTurningLoop snk ks ?st2)))"
        "newNodeID (finalState (writeTurningLoop snk ks ?st2)) = newNodeID ?st2"
        by blast
      have "turningCircleLoop (finalState (writeTurningLoop snk ks ?st2)) k0 = Some ?v1"
        by (rule writeTurningLoop_keeps) simp_all
      then have "?v1 \<in> ran (turningCircleLoop (finalState (writeTurningLoop snk ks ?st2)))"
        by (auto simp: ran_def)
      with d have "writer (finalState (writeTurningLoop snk ks ?st2)) = writer st @ (?v1 # drained)"
        "set (?v1 # drained) \<subseteq> ran (turningCircleLoop (finalState (writeTurningLoop snk ks ?st2)))"
        "newNodeID (finalState (writeTurningLoop snk ks ?st2)) = newNodeID st"
        by simp_all
      then show ?thesis
        unfolding step by blast
    next
      case MarshalFailed
      with Some have "finalState (writeTurningLoop snk (k0 # ks) st) = ?st1"
        by (simp add: annotate1_def Let_def)
      then show ?thesis by simp
    next
      case WriteFailed
      with Some have "finalState (writeTurningLoop snk (k0 # ks) st) = ?st1"
        by (simp add: annotate1_def Let_def)
      then show ?thesis by simp
    qed
  qed
qed


text \<open>
  Claim C5, as amended. With a sink that accepts every record:
  \<^item> ranging over the table, every key once, the final loop appends \<open>fzk_turning = not_set\<close>
    to every entry that has no tag with the key \<open>fzk_turning\<close>, leaves the other entries as
    they are, and writes the resulting record of every entry, one record per key in the
    order of the range; afterwards every entry has a tag \<open>fzk_turning\<close>;
  \<^item> in an input whose objects have identifiers from 0 to \<open>2^40 - 1\<close>, a turning circle or
    loop \<open>e\<close> without a tag \<open>fzk_turning\<close> of its own, after which the input has no way with
    one of the five highway values that references it (and no second turning node with
    its identifier), is in the table unchanged when the input ends; the statistics output
    returns; and the final loop turns the entry into \<open>e\<close> with \<open>fzk_turning = not_set\<close>
    appended and writes that record.
\<close>

theorem C5_drain_not_set:
  assumes "alwaysAccepts snk"
  shows "(distinct ks \<and> set ks = dom (turningCircleLoop st) \<longrightarrow>
           (\<exists>st'. writeTurningLoop snk ks st = Inr st' \<and>
              writer st' = writer st @ map (\<lambda>k. the (turningCircleLoop st' k)) ks \<and>
              dom (turningCircleLoop st') = dom (turningCircleLoop st) \<and>
              (\<forall>k v. turningCircleLoop st k = Some v \<longrightarrow>
                 turningCircleLoop st' k =
                   Some (if fzkTagFound (Tags v) then v
                         else v\<lparr>Tags := Tags v @ [\<lparr>Key = ''fzk_turning'', Value = ''not_set''\<rparr>]\<rparr>)) \<and>
              (\<forall>k v. turningCircleLoop st' k = Some v \<longrightarrow> fzkTagFound (Tags v)))) \<and>
         (isTurning e \<and> \<not> fzkTagFound (Tags e) \<and> (\<forall>obj \<in> set post. \<not> touches (ID e) obj) \<and>
          (\<forall>obj \<in> set (pre @ ONode e # post). objectAccepted obj) \<and> statsSound (stats st0) \<longrightarrow>
           (\<exists>st1. scanLoop snk (pre @ ONode e # post) st0 = Inr st1 \<and>
              statisticsOutput st1 = Inr st1 \<and>
              turningCircleLoop st1 (ID e) = Some e \<and>
              (\<forall>order. distinct order \<and> set order = dom (turningCircleLoop st1) \<longrightarrow>
                 (\<exists>st2. writeTurningLoop snk order st1 = Inr st2 \<and>
                    turningCircleLoop st2 (ID e) =
                      Some (e\<lparr>Tags := Tags e @ [\<lparr>Key = ''fzk_turning'', Value = ''not_set''\<rparr>]\<rparr>) \<and>
                    e\<lparr>Tags := Tags e @ [\<lparr>Key = ''fzk_turning'', Value = ''not_set''\<rparr>]\<rparr>
                      \<in> set (drop (length (writer st1)) (writer st2))))))"
proof -
  have drain: "\<exists>st'. writeTurningLoop snk ks st = Inr st' \<and>
              writer st' = writer st @ map (\<lambda>k. the (turningCircleLoop st' k)) ks \<and>
              dom (turningCircleLoop st') = dom (turningCircleLoop st) \<and>
              (\<forall>k v. turningCircleLoop st k = Some v \<longrightarrow>
                 turningCircleLoop st' k = Some (annotate1 ''not_set'' v)) \<and>
              (\<forall>k v. turningCircleLoop st' k = Some v \<longrightarrow> fzkTagFound (Tags v))"
    if ks: "distinct ks \<and> set ks = dom (turningCircleLoop st)" for ks st
  proof -
    let ?t' = "\<lambda>k. if k \<in> set ks then map_option (annotate1 ''not_set'') (turningCircleLoop st k)
                    else turningCircleLoop st k"
    let ?st' = "st\<lparr>turningCircleLoop := ?t',
             writer := writer st @
                map (annotate1 ''not_set'') (List.map_filter (turningCircleLoop st) ks)\<rparr>"
    have r: "writeTurningLoop snk ks st = Inr ?st'"
      by (rule writeTurningLoop_accept [OF assms])
    have "List.map_filter (turningCircleLoop st) ks = map (\<lambda>k. the (turningCircleLoop st k)) ks"
      using ks by (simp add: map_filter_dom)
    then have w: "writer ?st' = writer st @ map (\<lambda>k. the (turningCircleLoop ?st' k)) ks"
      using ks by (auto simp: comp_def)
    have d: "dom (turningCircleLoop ?st') = dom (turningCircleLoop st)"
      by (auto simp: dom_def split: if_splits)
    have v: "\<forall>k v. turningCircleLoop st k = Some v \<longrightarrow>
                 turningCircleLoop ?st' k = Some (annotate1 ''not_set'' v)"
      using ks by auto
    have f: "\<forall>k v. turningCircleLoop ?st' k = Some v \<longrightarrow> fzkTagFound (Tags v)"
      using ks by (auto split: if_splits)
    from r w d v f show ?thesis by blast
  qed
  have a: "distinct ks \<and> set ks = dom (turningCircleLoop st) \<longrightarrow>
           (\<exists>st'. writeTurningLoop snk ks st = Inr st' \<and>
              writer st' = writer st @ map (\<lambda>k. the (turningCircleLoop st' k)) ks \<and>
              dom (turningCircleLoop st') = dom (turningCircleLoop st) \<and>
              (\<forall>k v. turningCircleLoop st k = Some v \<longrightarrow>
                 turningCircleLoop st' k =
                   Some (if fzkTagFound (Tags v) then v
                         else v\<lparr>Tags := Tags v @ [\<lparr>Key = ''fzk_turning'', Value = ''not_set''\<rparr>]\<rparr>)) \<and>
              (\<forall>k v. turningCircleLoop st' k = Some v \<longrightarrow> fzkTagFound (Tags v)))"
    using drain [of ks st] unfolding annotate1_def by blast
  have b: "\<exists>st1. scanLoop snk (pre @ ONode e # post) st0 = Inr st1 \<and>
              statisticsOutput st1 = Inr st1 \<and>
              turningCircleLoop st1 (ID e) = Some e \<and>
              (\<forall>order. distinct order \<and> set order = dom (turningCircleLoop st1) \<longrightarrow>
                 (\<exists>st2. writeTurningLoop snk order st1 = Inr st2 \<and>
                    turningCircleLoop st2 (ID e) =
                      Some (e\<lparr>Tags := Tags e @ [\<lparr>Key = ''fzk_turning'', Value = ''not_set''\<rparr>]\<rparr>) \<and>
                    e\<lparr>Tags := Tags e @ [\<lparr>Key = ''fzk_turning'', Value = ''not_set''\<rparr>]\<rparr>
                      \<in> set (drop (length (writer st1)) (writer st2))))"
    if e: "isTurning e \<and> \<not> fzkTagFound (Tags e) \<and> (\<forall>obj \<in> set post. \<not> touches (ID e) obj) \<and>
          (\<forall>obj \<in> set (pre @ ONode e # post). objectAccepted obj) \<and> statsSound (stats st0)"
  proof -
    let ?e' = "e\<lparr>Tags := Tags e @ [\<lparr>Key = ''fzk_turning'', Value = ''not_set''\<rparr>]\<rparr>"
    from e have accepted: "\<forall>obj \<in> set pre. objectAccepted obj" "idAccepted (ID e)"
      "\<forall>obj \<in> set post. objectAccepted obj"
      by simp_all
    from scanLoop_accept [OF assms accepted(1), of st0]
    obtain sa where sa: "scanLoop snk pre st0 = Inr sa" by blast
    from processNode_accept [OF assms accepted(2), of sa] e
    obtain sb where sb: "processNode snk e sa = Inr sb" "turningCircleLoop sb (ID e) = Some e"
      by auto
    from scanLoop_accept [OF assms accepted(3), of sb]
    obtain st1 where st1: "scanLoop snk post sb = Inr st1" by blast
    have run: "scanLoop snk (pre @ ONode e # post) st0 = Inr st1"
      using sa sb(1) st1 by (simp add: scanLoop_append bind_err_def)
    have "Tags e \<noteq> []"
      using e by (auto simp: isTurning_def TagMap_def)
    then have "\<exists>obj \<in> set (pre @ ONode e # post). objectTagged obj"
      by auto
    with scanLoop_stats [OF run] e have "statsTagged (stats st1)"
      by blast
    then have out: "statisticsOutput st1 = Inr st1"
      by (rule statisticsOutput_tagged)
    have t1: "turningCircleLoop st1 (ID e) = Some e"
      using scanLoop_untouched [OF _ st1, of "ID e"] e sb(2) by simp
    have fin: "\<exists>st2. writeTurningLoop snk order st1 = Inr st2 \<and>
                    turningCircleLoop st2 (ID e) = Some ?e' \<and>
                    ?e' \<in> set (drop (length (writer st1)) (writer st2))"
      if o: "distinct order \<and> set order = dom (turningCircleLoop st1)" for order
    proof -
      from drain [OF o] obtain st2 where st2: "writeTurningLoop snk order st1 = Inr st2"
        "writer st2 = writer st1 @ map (\<lambda>k. the (turningCircleLoop st2 k)) order"
        "\<forall>k v. turningCircleLoop st1 k = Some v \<longrightarrow>
                 turningCircleLoop st2 k = Some (annotate1 ''not_set'' v)"
        by blast
      from st2(3) t1 e have t2: "turningCircleLoop st2 (ID e) = Some ?e'"
        by (simp add: annotate1_def)
      have "ID e \<in> set order" using o t1 by auto
      then have "the (turningCircleLoop st2 (ID e)) \<in> set (map (\<lambda>k. the (turningCircleLoop st2 k)) order)"
        by simp
      then have "?e' \<in> set (drop (length (writer st1)) (writer st2))"
        using st2(2) t2 by simp
      with st2(1) t2 show ?thesis by blast
    qed
    from run out t1 fin show ?thesis by blast
  qed
  from a b show ?thesis by blast
qed

text \<open>
  A turning circle with the identifier 77 that no way references: the final loop writes it
  with \<open>fzk_turning = not_set\<close>.
\<close>

theorem C5_witness:
  "returned (bind_err (scanLoop acceptAll [ONode (exampleTurning tagsTurningCircle)] exampleState)
     (\<lambda>st. bind_err (statisticsOutput st) (writeTurningLoop acceptAll [77]))) \<and>
   writer (finalState
     (bind_err (scanLoop acceptAll [ONode (exampleTurning tagsTurningCircle)] exampleState)
        (\<lambda>st. bind_err (statisticsOutput st) (writeTurningLoop acceptAll [77])))) =
     [exampleTurning (tagsTurningCircle @ [\<lparr>Key = ''fzk_turning'', Value = ''not_set''\<rparr>])] \<and>
   turningCircleLoop (finalState
     (bind_err (scanLoop acceptAll [ONode (exampleTurning tagsTurningCircle)] exampleState)
        (\<lambda>st. bind_err (statisticsOutput st) (writeTurningLoop acceptAll [77])))) 77 =
     Some (exampleTurning (tagsTurningCircle @ [\<lparr>Key = ''fzk_turning'', Value = ''not_set''\<rparr>]))"
proof -
  let ?e = "exampleTurning tagsTurningCircle"
  let ?e' = "?e\<lparr>Tags := Tags ?e @ [\<lparr>Key = ''fzk_turning'', Value = ''not_set''\<rparr>]\<rparr>"
  have tur: "isTurning ?e"
    by (simp add: isTurning_def exampleTurning_def TagMap_tagsTurningCircle)
  have e: "isTurning ?e \<and> \<not> fzkTagFound (Tags ?e) \<and> (\<forall>obj \<in> set []. \<not> touches (ID ?e) obj) \<and>
      (\<forall>obj \<in> set ([] @ ONode ?e # []). objectAccepted obj) \<and> statsSound (stats exampleState)"
    using tur
    by (simp add: exampleTurning_def tagsTurningCircle_def idAccepted_def exampleState_def)
  have acc: "alwaysAccepts acceptAll" by simp
  from C5_drain_not_set [OF acc, of "[]" exampleState ?e "[]" "[]" exampleState] e
  obtain st1 where st1: "scanLoop acceptAll ([] @ ONode ?e # []) exampleState = Inr st1"
    "statisticsOutput st1 = Inr st1"
    "\<forall>order. distinct order \<and> set order = dom (turningCircleLoop st1) \<longrightarrow>
       (\<exists>st2. writeTurningLoop acceptAll order st1 = Inr st2 \<and>
          turningCircleLoop st2 (ID ?e) = Some ?e' \<and>
          ?e' \<in> set (drop (length (writer st1)) (writer st2)))"
    by blast
  from st1(1) have proc: "processNode acceptAll ?e exampleState = Inr st1"
    by (simp split: sum.splits)
  from processNode_Inr(2,4) [OF proc] tur
  have w1: "writer st1 = []" and t1: "turningCircleLoop st1 = [77 \<mapsto> ?e]"
    by (simp_all add: synthesized_def exampleTurning_def TagMap_tagsTurningCircle exampleState_def)
  then have o: "distinct [77 :: NodeID] \<and> set [77] = dom (turningCircleLoop st1)"
    by simp
  with st1(3) obtain st2 where st2: "writeTurningLoop acceptAll [77] st1 = Inr st2"
    "turningCircleLoop st2 (ID ?e) = Some ?e'"
    by blast
  from C5_drain_not_set [OF acc, of "[77]" st1] o st2(1)
  have "writer st2 = writer st1 @ map (\<lambda>k. the (turningCircleLoop st2 k)) [77]"
    by auto
  with st2(2) w1 have w2: "writer st2 = [?e']"
    by (simp add: exampleTurning_def)
  from st1(1,2) st2 w2 show ?thesis
    by (simp add: bind_err_def exampleTurning_def)
qed

subsection \<open>At most one tag fzk_turning\<close>







subsection \<open>Runs of main\<close>

lemma sint_offset:
  fixes c :: "64 word"
  assumes "sint c + int i < 2 ^ 63"
  shows "sint (c + of_nat i) = sint c + int i"
proof -
  have "c + of_nat i = word_of_int (sint c + int i)"
    by simp
  then have "sint (c + of_nat i) = signed_take_bit 63 (sint c + int i)"
    by (simp only: sint_sbintrunc') simp
  moreover have "- (2 ^ 63) \<le> sint c + int i"
    using sint_greater_eq [of c] by simp
  ultimately show ?thesis
    using assms by (simp add: signed_take_bit_int_eq_self)
qed

lemma ids_as_integers:
  fixes start :: "64 word"
  assumes "map ID ws = idsFrom start n" and "sint start + int n \<le> 2 ^ 63"
  shows "map (\<lambda>x. sint (ID x)) ws = map (\<lambda>i. sint start + int i) [0..<n]"
proof -
  have "map (\<lambda>x. sint (ID x)) ws = map sint (map ID ws)"
    by simp
  also have "\<dots> = map (\<lambda>i. sint (start + of_nat i)) [0..<n]"
    by (simp only: assms(1) idsFrom_def) simp
  also have "\<dots> = map (\<lambda>i. sint start + int i) [0..<n]"
  proof (rule map_cong [OF refl])
    fix i assume "i \<in> set [0..<n]"
    then have "sint start + int i < 2 ^ 63"
      using assms(2) by simp
    then show "sint (start + of_nat i) = sint start + int i"
      by (rule sint_offset)
  qed
  finally show ?thesis .
qed

text \<open>
  The state in which \<open>main\<close> ends is the state at the start of the process, the state in
  which the processing loop ends, or the state in which the final loop ends.
\<close>

lemma main_final:
  "finalState (main cl env) = zeroState \<or>
   (\<exists>flags. flagParse (parseInt env) cl = Some flags \<and>
      (finalState (main cl env) =
         finalState (scanLoop (outputSink env) (scanned env) (initialState flags)) \<or>
       (\<exists>st1. scanLoop (outputSink env) (scanned env) (initialState flags) = Inr st1 \<and>
          finalState (main cl env) =
            finalState (writeTurningLoop (outputSink env) (rangeOrder env (turningCircleLoop st1)) st1))))"
proof (cases "flagParse (parseInt env) cl")
  case None
  then show ?thesis by (simp add: main_def)
next
  case (Some flags)
  let ?scan = "scanLoop (outputSink env) (scanned env) (initialState flags)"
  show ?thesis
  proof (cases "inputOSM flags = [] \<or> outputNodes flags = [] \<or> startNode flags = 0 \<or>
      \<not> openInputOk env \<or> \<not> openOutputOk env \<or> \<not> writeHeaderOk env")
    case True
    with Some have "finalState (main cl env) = zeroState"
      by (auto simp: main_def)
    then show ?thesis by simp
  next
    case False
    then have m: "main cl env = bind_err ?scan (\<lambda>st.
               if scannerErr env then Inl (ScannerError, st)
               else bind_err (statisticsOutput st) (\<lambda>st.
                    bind_err (writeTurningLoop (outputSink env) (rangeOrder env (turningCircleLoop st)) st)
                      (\<lambda>st. if \<not> finishOk env then Inl (WriteError, st) else Inr st)))"
      using Some by (simp add: main_def)
    show ?thesis
    proof (cases ?scan)
      case (Inl x)
      with m have "finalState (main cl env) = finalState ?scan"
        by (cases x) (simp add: bind_err_def)
      with Some show ?thesis by simp
    next
      case (Inr st1)
      let ?fin = "writeTurningLoop (outputSink env) (rangeOrder env (turningCircleLoop st1)) st1"
      have "finalState (main cl env) = st1 \<or> finalState (main cl env) = finalState ?fin"
      proof (cases "scannerErr env \<or> statisticsOutput st1 \<noteq> Inr st1")
        case True
        then have "finalState (main cl env) = st1"
          using m Inr
          by (auto simp: bind_err_def statisticsOutput_def split: option.splits)
        then show ?thesis by simp
      next
        case False
        then have "main cl env =
            bind_err ?fin (\<lambda>st. if \<not> finishOk env then Inl (WriteError, st) else Inr st)"
          using m Inr by (simp add: bind_err_def)
        then have "finalState (main cl env) = finalState ?fin"
          by (cases ?fin) (auto simp: bind_err_def)
        then show ?thesis by simp
      qed
      with Some Inr show ?thesis by auto
    qed
  qed
qed

text \<open>
  A run in which nothing fails: the command line is parsed, the files open, the sink
  accepts every record, the statistics accept every identifier, and at least one object
  has a tag.
\<close>

lemma main_accept:
  assumes "flagParse (parseInt env) cl = Some flags"
    and "alwaysAccepts (outputSink env)"
    and "inputOSM flags \<noteq> []" "outputNodes flags \<noteq> []" "startNode flags \<noteq> 0"
    and "openInputOk env" "openOutputOk env" "writeHeaderOk env" "\<not> scannerErr env" "finishOk env"
    and "\<forall>obj \<in> set (scanned env). objectAccepted obj"
    and "\<exists>obj \<in> set (scanned env). objectTagged obj"
  shows "\<exists>st1. scanLoop (outputSink env) (scanned env) (initialState flags) = Inr st1 \<and>
           main cl env =
             Inr (st1\<lparr>turningCircleLoop :=
                        (\<lambda>k. if k \<in> set (rangeOrder env (turningCircleLoop st1))
                             then map_option (annotate1 ''not_set'') (turningCircleLoop st1 k)
                             else turningCircleLoop st1 k),
                      writer := writer st1 @
                        map (annotate1 ''not_set'')
                          (List.map_filter (turningCircleLoop st1)
                             (rangeOrder env (turningCircleLoop st1)))\<rparr>)"
proof -
  let ?snk = "outputSink env"
  from scanLoop_accept [OF assms(2,11), of "initialState flags"]
  obtain st1 where 1: "scanLoop ?snk (scanned env) (initialState flags) = Inr st1"
    by blast
  have "statsSound (stats (initialState flags))"
    by (simp add: initialState_def zeroState_def)
  from scanLoop_stats [OF 1 this] assms(12) have "statsTagged (stats st1)"
    by blast
  then have 2: "statisticsOutput st1 = Inr st1"
    by (rule statisticsOutput_tagged)
  show ?thesis
    using assms(1,3-10) 1 2
    by (simp add: main_def bind_err_def writeTurningLoop_accept [OF assms(2)])
qed

text \<open>
  A run in which no object has a tag: the statistics output panics.
\<close>

lemma elementStats_Add_untagged:
  "elementStats_Add eid [] s = Some s' \<Longrightarrow> MaxTagsID s' = MaxTagsID s"
  by (auto simp: elementStats_Add_def Let_def split: option.splits if_splits)

lemma scanLoop_untagged:
  "\<forall>obj \<in> set objs. \<not> objectTagged obj \<Longrightarrow> scanLoop snk objs st = Inr st' \<Longrightarrow>
   MaxTagsID (stats st') = MaxTagsID (stats st)"
proof (induction objs arbitrary: st)
  case Nil
  then show ?case by simp
next
  case (Cons obj objs)
  from Cons.prems(2) obtain st1 where s: "processObject snk obj st = Inr st1"
    "scanLoop snk objs st1 = Inr st'"
    by (auto split: sum.splits)
  have "MaxTagsID (stats st1) = MaxTagsID (stats st)"
  proof (cases obj)
    case (ONode e)
    with s(1) Cons.prems(1) have "processNode snk e st = Inr st1" "Tags e = []" by simp_all
    from processNode_Inr(1) [OF this(1)] this(2) show ?thesis
      by (simp add: elementStats_Add_untagged)
  next
    case (OWay e)
    with s(1) Cons.prems(1) have "processWay e st = Inr st1" "WayTags e = []" by simp_all
    from processWay_Inr(1) [OF this(1)] this(2) show ?thesis
      by (simp add: elementStats_Add_untagged)
  next
    case (ORelation e)
    with s(1) Cons.prems(1) have "processRelation e st = Inr st1" "RelationTags e = []" by simp_all
    from processRelation_Inr(1) [OF this(1)] this(2) show ?thesis
      by (simp add: elementStats_Add_untagged)
  qed
  with Cons.IH [OF _ s(2)] Cons.prems(1) show ?case by simp
qed

lemma main_untagged:
  assumes "flagParse (parseInt env) cl = Some flags"
    and "alwaysAccepts (outputSink env)"
    and "inputOSM flags \<noteq> []" "outputNodes flags \<noteq> []" "startNode flags \<noteq> 0"
    and "openInputOk env" "openOutputOk env" "writeHeaderOk env" "\<not> scannerErr env"
    and "\<forall>obj \<in> set (scanned env). objectAccepted obj"
    and "\<forall>obj \<in> set (scanned env). \<not> objectTagged obj"
  shows "\<exists>st1. main cl env = Inl (Panic, st1)"
proof -
  from scanLoop_accept [OF assms(2,10), of "initialState flags"]
  obtain st1 where 1: "scanLoop (outputSink env) (scanned env) (initialState flags) = Inr st1"
    by blast
  from scanLoop_untagged [OF assms(11) 1] have "MaxTagsID (stats st1) = 0"
    by (simp add: initialState_def zeroState_def newElementStats_def)
  then have "statisticsOutput st1 = Inl (Panic, st1)"
    by (simp add: statisticsOutput_def elementType_zero)
  with assms(1,3-9) 1 show ?thesis
    by (simp add: main_def bind_err_def)
qed

text \<open>
  The runs of the examples: one node with a tag, and a start identifier given as a
  decimal numeral.
\<close>

lemma main_single:
  assumes "decimal s = Some start" "start \<noteq> 0" "idAccepted (ID e)" "Tags e \<noteq> []"
    and "isTurning e \<longrightarrow> ID e = 77"
  shows "returned (main (exampleCommandLine s) (exampleEnv [ONode e]))"
    and "writer (finalState (main (exampleCommandLine s) (exampleEnv [ONode e]))) =
           synthesized e start @ (if isTurning e then [annotate1 ''not_set'' e] else [])"
    and "turningCircleLoop (finalState (main (exampleCommandLine s) (exampleEnv [ONode e]))) =
           (if isTurning e then [77 \<mapsto> annotate1 ''not_set'' e] else Map.empty)"
proof -
  let ?cl = "exampleCommandLine s" and ?env = "exampleEnv [ONode e]"
  let ?flags = "\<lparr>inputOSM = ''osmdata.pbf'', outputNodes = ''osmpp.xml'', startNode = start\<rparr>"
  have parse: "flagParse (parseInt ?env) ?cl = Some ?flags"
    using assms(1) by (simp add: flagParse_def exampleCommandLine_def exampleEnv_def)
  have env: "outputSink ?env = acceptAll" "scanned ?env = [ONode e]" "rangeOrder ?env = exampleOrder"
    "openInputOk ?env" "openOutputOk ?env" "writeHeaderOk ?env" "\<not> scannerErr ?env" "finishOk ?env"
    by (simp_all add: exampleEnv_def)
  have "\<exists>st1. scanLoop (outputSink ?env) (scanned ?env) (initialState ?flags) = Inr st1 \<and>
           main ?cl ?env =
             Inr (st1\<lparr>turningCircleLoop :=
                        (\<lambda>k. if k \<in> set (rangeOrder ?env (turningCircleLoop st1))
                             then map_option (annotate1 ''not_set'') (turningCircleLoop st1 k)
                             else turningCircleLoop st1 k),
                      writer := writer st1 @
                        map (annotate1 ''not_set'')
                          (List.map_filter (turningCircleLoop st1)
                             (rangeOrder ?env (turningCircleLoop st1)))\<rparr>)"
    using assms(2-4) by (intro main_accept [OF parse]) (simp_all add: env)
  then obtain st1 where st1: "processNode acceptAll e (initialState ?flags) = Inr st1"
    and m: "main ?cl ?env =
             Inr (st1\<lparr>turningCircleLoop :=
                        (\<lambda>k. if k \<in> set (exampleOrder (turningCircleLoop st1))
                             then map_option (annotate1 ''not_set'') (turningCircleLoop st1 k)
                             else turningCircleLoop st1 k),
                      writer := writer st1 @
                        map (annotate1 ''not_set'')
                          (List.map_filter (turningCircleLoop st1)
                             (exampleOrder (turningCircleLoop st1)))\<rparr>)"
    by (auto simp: env split: sum.splits)
  from processNode_Inr(2,4) [OF st1]
  have w: "writer st1 = synthesized e start"
    and t: "turningCircleLoop st1 = (if isTurning e then [77 \<mapsto> e] else Map.empty)"
    using assms(5) by (auto simp: initialState_def zeroState_def)
  from m show "returned (main ?cl ?env)" by simp
  from m w t show "writer (finalState (main ?cl ?env)) =
           synthesized e start @ (if isTurning e then [annotate1 ''not_set'' e] else [])"
    by (simp add: exampleOrder_def List.map_filter_simps)
  from m t show "turningCircleLoop (finalState (main ?cl ?env)) =
           (if isTurning e then [77 \<mapsto> annotate1 ''not_set'' e] else Map.empty)"
    by (auto simp: exampleOrder_def fun_eq_iff)
qed

lemma TagMap_tagsRcnRwn:
  "TagMap tagsRcnRwn =
     [''expected_rcn_route_relations'' \<mapsto> ''3'', ''network:type'' \<mapsto> ''node_network'',
      ''rcn:name'' \<mapsto> ''Spechtholtshook'', ''rcn_ref'' \<mapsto> ''53'', ''rwn_ref'' \<mapsto> ''X32'']"
  by (simp add: TagMap_def tagsRcnRwn_def)

lemma synthesized_tagsRcnRwn:
  "synthesized (exampleJunction tagsRcnRwn) c =
     [exampleJunction [\<lparr>Key = ''node_network'', Value = ''node_bicycle''\<rparr>,
                       \<lparr>Key = ''name'', Value = ''53''\<rparr>]\<lparr>ID := c\<rparr>,
      exampleJunction [\<lparr>Key = ''node_network'', Value = ''node_hiking''\<rparr>,
                       \<lparr>Key = ''name'', Value = ''X32''\<rparr>]\<lparr>ID := c + 1\<rparr>]"
  by (simp add: synthesized_def exampleJunction_def TagMap_tagsRcnRwn requests_def request_def
      derived_def)

lemma main_example_two:
  assumes "decimal s = Some start" "start \<noteq> 0"
  shows "returned (main (exampleCommandLine s) (exampleEnv [ONode (exampleJunction tagsRcnRwn)]))"
    and "writer (finalState (main (exampleCommandLine s)
            (exampleEnv [ONode (exampleJunction tagsRcnRwn)]))) =
     [exampleJunction [\<lparr>Key = ''node_network'', Value = ''node_bicycle''\<rparr>,
                       \<lparr>Key = ''name'', Value = ''53''\<rparr>]\<lparr>ID := start\<rparr>,
      exampleJunction [\<lparr>Key = ''node_network'', Value = ''node_hiking''\<rparr>,
                       \<lparr>Key = ''name'', Value = ''X32''\<rparr>]\<lparr>ID := start + 1\<rparr>]"
proof -
  have e: "idAccepted (ID (exampleJunction tagsRcnRwn))" "Tags (exampleJunction tagsRcnRwn) \<noteq> []"
    "\<not> isTurning (exampleJunction tagsRcnRwn)"
    by (simp_all add: idAccepted_def exampleJunction_def isTurning_def TagMap_tagsRcnRwn)
       (simp add: tagsRcnRwn_def)
  from main_single(1) [OF assms e(1,2)] e(3)
  show "returned (main (exampleCommandLine s) (exampleEnv [ONode (exampleJunction tagsRcnRwn)]))"
    by simp
  from main_single(2) [OF assms e(1,2)] e(3)
  show "writer (finalState (main (exampleCommandLine s)
            (exampleEnv [ONode (exampleJunction tagsRcnRwn)]))) =
     [exampleJunction [\<lparr>Key = ''node_network'', Value = ''node_bicycle''\<rparr>,
                       \<lparr>Key = ''name'', Value = ''53''\<rparr>]\<lparr>ID := start\<rparr>,
      exampleJunction [\<lparr>Key = ''node_network'', Value = ''node_hiking''\<rparr>,
                       \<lparr>Key = ''name'', Value = ''X32''\<rparr>]\<lparr>ID := start + 1\<rparr>]"
    by (simp add: synthesized_tagsRcnRwn)
qed

lemma decimal_examples:
  "decimal ''1000'' = Some 1000"
  "decimal ''-5'' = Some (- 5)"
  "decimal ''0'' = Some 0"
  "decimal ''abc'' = None"
  "decimal ''9223372036854775807'' = Some 9223372036854775807"
  by (simp_all add: decimal_def digitValue_def)

lemma main_Inr:
  assumes "main cl env = Inr st"
  shows "\<exists>flags st1. flagParse (parseInt env) cl = Some flags \<and>
           scanLoop (outputSink env) (scanned env) (initialState flags) = Inr st1 \<and>
           writeTurningLoop (outputSink env) (rangeOrder env (turningCircleLoop st1)) st1 = Inr st"
  using assms
  by (auto simp: main_def bind_err_def statisticsOutput_def
      split: option.splits if_splits sum.splits)

lemma numberedNext_initialState: "numberedNext (startNode flags) (initialState flags)"
  by (simp add: numberedNext_def numbered_def initialState_def zeroState_def idsFrom_def)

lemma main_written:
  assumes "flagParse (parseInt env) cl = Some flags"
  shows "\<exists>n \<le> length (writer (finalState (main cl env))).
           map ID (take n (writer (finalState (main cl env)))) = idsFrom (startNode flags) n \<and>
           set (drop n (writer (finalState (main cl env)))) \<subseteq>
             ran (turningCircleLoop (finalState (main cl env))) \<and>
           (\<forall>st. main cl env = Inr st \<longrightarrow> newNodeID st = startNode flags + of_nat n)"
proof -
  let ?snk = "outputSink env"
  let ?scan = "scanLoop ?snk (scanned env) (initialState flags)"
  let ?w = "writer (finalState (main cl env))"
  have drained: "\<exists>n \<le> length (writer (finalState r)).
           map ID (take n (writer (finalState r))) = idsFrom (startNode flags) n \<and>
           set (drop n (writer (finalState r))) \<subseteq> ran (turningCircleLoop (finalState r)) \<and>
           newNodeID (finalState r) = startNode flags + of_nat n"
    if s: "?scan = Inr st1" and r: "r = writeTurningLoop ?snk ks st1" for st1 r ks
  proof -
    from scanLoop_numbered(1) [OF numberedNext_initialState s]
    have n: "map ID (writer st1) = idsFrom (startNode flags) (length (writer st1))"
      "newNodeID st1 = startNode flags + of_nat (length (writer st1))"
      by (simp_all add: numberedNext_def numbered_def)
    from writeTurningLoop_written [of ?snk ks st1] r
    obtain dr where dr: "writer (finalState r) = writer st1 @ dr"
      "set dr \<subseteq> ran (turningCircleLoop (finalState r))"
      "newNodeID (finalState r) = newNodeID st1"
      by auto
    from n dr have "length (writer st1) \<le> length (writer (finalState r))"
      "map ID (take (length (writer st1)) (writer (finalState r))) =
         idsFrom (startNode flags) (length (writer st1))"
      "set (drop (length (writer st1)) (writer (finalState r))) \<subseteq> ran (turningCircleLoop (finalState r))"
      "newNodeID (finalState r) = startNode flags + of_nat (length (writer st1))"
      by simp_all
    then show ?thesis by blast
  qed
  show ?thesis
  proof (cases "\<exists>st. main cl env = Inr st")
    case True
    then obtain st where st: "main cl env = Inr st" by blast
    from main_Inr [OF st] assms
    obtain st1 where 1: "?scan = Inr st1"
      "writeTurningLoop ?snk (rangeOrder env (turningCircleLoop st1)) st1 = Inr st"
      by auto
    from drained [OF 1(1) refl, of "rangeOrder env (turningCircleLoop st1)"] 1(2) st
    show ?thesis by auto
  next
    case False
    then have noret: "\<forall>st. main cl env = Inr st \<longrightarrow> newNodeID st = startNode flags + of_nat n" for n
      by blast
    from main_final [of cl env] assms
    consider (zero) "finalState (main cl env) = zeroState"
      | (scan) "finalState (main cl env) = finalState ?scan"
      | (fin) st1 where "?scan = Inr st1"
          "finalState (main cl env) =
             finalState (writeTurningLoop ?snk (rangeOrder env (turningCircleLoop st1)) st1)"
      by auto
    then show ?thesis
    proof cases
      case zero
      then have "0 \<le> length ?w" "map ID (take 0 ?w) = idsFrom (startNode flags) 0"
        "set (drop 0 ?w) \<subseteq> ran (turningCircleLoop (finalState (main cl env)))"
        by (simp_all add: zeroState_def idsFrom_def)
      with noret [of 0] show ?thesis by blast
    next
      case scan
      from scanLoop_numbered(2) [OF numberedNext_initialState, where snk = ?snk and objs = "scanned env" and flags1 = flags] scan
      have "map ID (take (length ?w) ?w) = idsFrom (startNode flags) (length ?w)"
        "set (drop (length ?w) ?w) \<subseteq> ran (turningCircleLoop (finalState (main cl env)))"
        by (simp_all add: numbered_def)
      with noret [of "length ?w"] show ?thesis by blast
    next
      case fin
      from drained [OF fin(1) refl, of "rangeOrder env (turningCircleLoop st1)"] fin(2) noret
      show ?thesis by auto
    qed
  qed
qed

text \<open>
  Claim C3, as amended. In any run of \<open>main\<close>, with any sink and however the run ends:
  \<^item> every call of \<open>writeNewNodeObject\<close> adds one to the counter, in 64-bit arithmetic, and
    when it returns it has written the record with the identifier set to the counter's
    value before;
  \<^item> the records that the processing loop has written when it ends have the identifiers
    \<open>start + i\<close> for \<open>i = 0, 1, ...\<close> in 64-bit arithmetic, in this order;
  \<^item> when \<open>main\<close> ends, these are the first \<open>n\<close> records written, the records after them
    are entries of the table written by the final loop, and when \<open>main\<close> completes the
    counter is \<open>start + n\<close>;
  \<^item> as long as \<open>start + n\<close> does not exceed \<open>2 ^ 63\<close>, the identifiers are the integers
    \<open>start, start + 1, ..., start + n - 1\<close>: strictly increasing, without gap or repeat.

  When the command line cannot be parsed, nothing is written.
\<close>

theorem C3_identifiers:
  "newNodeID (finalState (writeNewNodeObject snk node s)) = newNodeID s + 1 \<and>
   (\<forall>s'. writeNewNodeObject snk node s = Inr s' \<longrightarrow>
      s' = s\<lparr>newNodeID := newNodeID s + 1, writer := writer s @ [node\<lparr>ID := newNodeID s\<rparr>]\<rparr>) \<and>
   (\<forall>err s'. writeNewNodeObject snk node s = Inl (err, s') \<longrightarrow> writer s' = writer s) \<and>
   map ID (writer (finalState (scanLoop snk objs (initialState flags)))) =
     map (\<lambda>i. startNode flags + of_nat i)
       [0..<length (writer (finalState (scanLoop snk objs (initialState flags))))] \<and>
   (flagParse (parseInt env) cl = Some flags \<longrightarrow>
      (\<exists>n \<le> length (writer (finalState (main cl env))).
         map ID (take n (writer (finalState (main cl env)))) =
           map (\<lambda>i. startNode flags + of_nat i) [0..<n] \<and>
         set (drop n (writer (finalState (main cl env)))) \<subseteq>
           ran (turningCircleLoop (finalState (main cl env))) \<and>
         (\<forall>st. main cl env = Inr st \<longrightarrow> newNodeID st = startNode flags + of_nat n) \<and>
         (sint (startNode flags) + int n \<le> 2 ^ 63 \<longrightarrow>
            map (\<lambda>x. sint (ID x)) (take n (writer (finalState (main cl env)))) =
              map (\<lambda>i. sint (startNode flags) + int i) [0..<n]))) \<and>
   (flagParse (parseInt env) cl = None \<longrightarrow> writer (finalState (main cl env)) = [])"
proof -
  have a: "newNodeID (finalState (writeNewNodeObject snk node s)) = newNodeID s + 1"
    by (simp add: writeNewNodeObject_def Let_def split: sinkResult.splits)
  have b: "s' = s\<lparr>newNodeID := newNodeID s + 1, writer := writer s @ [node\<lparr>ID := newNodeID s\<rparr>]\<rparr>"
    if "writeNewNodeObject snk node s = Inr s'" for s'
    using that by (auto simp: writeNewNodeObject_def Let_def split: sinkResult.splits)
  have c: "writer s' = writer s"
    if "writeNewNodeObject snk node s = Inl (err, s')" for err s'
    using that by (auto simp: writeNewNodeObject_def Let_def split: sinkResult.splits)
  have d: "map ID (writer (finalState (scanLoop snk objs (initialState flags)))) =
     map (\<lambda>i. startNode flags + of_nat i)
       [0..<length (writer (finalState (scanLoop snk objs (initialState flags))))]"
    using scanLoop_numbered(2) [OF numberedNext_initialState, where snk = snk and objs = objs and flags1 = flags]
    by (simp add: numbered_def idsFrom_def)
  have e: "\<exists>n \<le> length (writer (finalState (main cl env))).
         map ID (take n (writer (finalState (main cl env)))) =
           map (\<lambda>i. startNode flags + of_nat i) [0..<n] \<and>
         set (drop n (writer (finalState (main cl env)))) \<subseteq>
           ran (turningCircleLoop (finalState (main cl env))) \<and>
         (\<forall>st. main cl env = Inr st \<longrightarrow> newNodeID st = startNode flags + of_nat n) \<and>
         (sint (startNode flags) + int n \<le> 2 ^ 63 \<longrightarrow>
            map (\<lambda>x. sint (ID x)) (take n (writer (finalState (main cl env)))) =
              map (\<lambda>i. sint (startNode flags) + int i) [0..<n])"
    if p: "flagParse (parseInt env) cl = Some flags"
  proof -
    from main_written [OF p]
    obtain n where n: "n \<le> length (writer (finalState (main cl env)))"
      "map ID (take n (writer (finalState (main cl env)))) = idsFrom (startNode flags) n"
      "set (drop n (writer (finalState (main cl env)))) \<subseteq>
         ran (turningCircleLoop (finalState (main cl env)))"
      "\<forall>st. main cl env = Inr st \<longrightarrow> newNodeID st = startNode flags + of_nat n"
      by blast
    have "map (\<lambda>x. sint (ID x)) (take n (writer (finalState (main cl env)))) =
              map (\<lambda>i. sint (startNode flags) + int i) [0..<n]"
      if "sint (startNode flags) + int n \<le> 2 ^ 63"
      using n(2) that by (rule ids_as_integers)
    with n show ?thesis
      unfolding idsFrom_def by blast
  qed
  have f: "writer (finalState (main cl env)) = []" if "flagParse (parseInt env) cl = None"
    using that by (simp add: main_def zeroState_def)
  from a b c d e f show ?thesis by blast
qed

text \<open>
  The node of the comment in main.go (\<open>rcn_ref = 53\<close>, \<open>rwn_ref = X32\<close>), start identifier
  1000: the two records written have the identifiers 1000 and 1001.
\<close>

theorem C3_witness:
  "flagParse decimal (exampleCommandLine ''1000'') =
     Some \<lparr>inputOSM = ''osmdata.pbf'', outputNodes = ''osmpp.xml'', startNode = 1000\<rparr> \<and>
   returned (main (exampleCommandLine ''1000'') (exampleEnv [ONode (exampleJunction tagsRcnRwn)])) \<and>
   writtenIDs (main (exampleCommandLine ''1000'') (exampleEnv [ONode (exampleJunction tagsRcnRwn)])) =
     [1000, 1001]"
proof -
  let ?cl = "exampleCommandLine ''1000''" and ?env = "exampleEnv [ONode (exampleJunction tagsRcnRwn)]"
  let ?flags = "\<lparr>inputOSM = ''osmdata.pbf'', outputNodes = ''osmpp.xml'', startNode = 1000\<rparr>"
  have parse: "flagParse decimal ?cl = Some ?flags"
    by (simp add: flagParse_def exampleCommandLine_def decimal_examples)
  then have "flagParse (parseInt ?env) ?cl = Some ?flags"
    by (simp add: exampleEnv_def)
  with C3_identifiers [where env = ?env and cl = ?cl and flags = ?flags]
  obtain n where n: "n \<le> length (writer (finalState (main ?cl ?env)))"
    "sint (startNode ?flags) + int n \<le> 2 ^ 63 \<longrightarrow>
       map (\<lambda>x. sint (ID x)) (take n (writer (finalState (main ?cl ?env)))) =
         map (\<lambda>i. sint (startNode ?flags) + int i) [0..<n]"
    by blast
  have two: "length (writer (finalState (main ?cl ?env))) = 2"
    by (simp add: main_example_two [OF decimal_examples(1)])
  with n(1) have "sint (startNode ?flags) + int n \<le> 2 ^ 63"
    by simp
  with n(2) have "map (\<lambda>x. sint (ID x)) (take n (writer (finalState (main ?cl ?env)))) =
         map (\<lambda>i. sint (startNode ?flags) + int i) [0..<n]"
    by blast
  with parse show ?thesis
    by (simp add: main_example_two [OF decimal_examples(1)] writtenIDs_def)
qed

text \<open>
  Claim C3 as stated fails when the counter passes the largest 64-bit integer: with the
  start identifier \<open>2 ^ 63 - 1\<close> the same node gets the identifiers \<open>2 ^ 63 - 1\<close> and
  \<open>- 2 ^ 63\<close>, which are not increasing.
\<close>

theorem C3_counterexample:
  "returned (main (exampleCommandLine ''9223372036854775807'')
                  (exampleEnv [ONode (exampleJunction tagsRcnRwn)])) \<and>
   writtenIDs (main (exampleCommandLine ''9223372036854775807'')
                    (exampleEnv [ONode (exampleJunction tagsRcnRwn)])) =
     [9223372036854775807, - 9223372036854775808] \<and>
   \<not> sorted_wrt (<) (writtenIDs (main (exampleCommandLine ''9223372036854775807'')
                    (exampleEnv [ONode (exampleJunction tagsRcnRwn)])))"
  by (simp add: main_example_two [OF decimal_examples(5)] writtenIDs_def)

text \<open>No function that \<open>main\<close> calls ends the process with the usage help.\<close>

lemma createNewNodeNetworkObject_no_usage:
  "createNewNodeNetworkObject snk e st \<noteq> Inl (UsageExit, s)"
proof -
  have sink_err: "writeNewNodeObject snk n st \<noteq> Inl (UsageExit, s)" for snk n st s
    by (auto simp: writeNewNodeObject_def Let_def split: sinkResult.splits)
  have aw: "appendAndWrite snk n l v st \<noteq> Inl (UsageExit, s)" for snk n l v st s
    using sink_err by (simp add: appendAndWrite_def Let_def)
  have nb: "networkBicycle snk e tags st \<noteq> Inl (UsageExit, s)" for snk e tags st s
    by (simp add: networkBicycle_def aw Let_def split: option.splits)
  have nh: "networkHiking snk e tags st \<noteq> Inl (UsageExit, s)" for snk e tags st s
    by (simp add: networkHiking_def aw Let_def split: option.splits)
  have ns: "networkSingle k l snk e tags st \<noteq> Inl (UsageExit, s)" for k l snk e tags st s
    by (simp add: networkSingle_def aw Let_def split: option.splits)
  have bind: "bind_err m f \<noteq> Inl (UsageExit, s)"
    if "m \<noteq> Inl (UsageExit, s)" "\<And>x. f x \<noteq> Inl (UsageExit, s)"
    for m :: "State result" and f :: "State \<Rightarrow> State result"
    using that by (cases m) (auto simp: bind_err_def)
  show ?thesis
    unfolding createNewNodeNetworkObject_def Let_def
    by (intro bind nb nh ns)
qed

lemma scanLoop_no_usage: "scanLoop snk objs st \<noteq> Inl (UsageExit, s)"
proof (induction objs arbitrary: st)
  case Nil
  then show ?case by simp
next
  case (Cons obj objs)
  have pn: "processNode snk e st \<noteq> Inl (UsageExit, s)" for e
    using createNewNodeNetworkObject_no_usage
    by (auto simp: processNode_def Let_def bind_err_def split: sum.splits option.splits)
  have pw: "processWay e st \<noteq> Inl (UsageExit, s)" for e
    by (auto simp: processWay_def Let_def split: option.splits)
  have pr: "processRelation e st \<noteq> Inl (UsageExit, s)" for e
    by (auto simp: processRelation_def Let_def split: option.splits)
  have "processObject snk obj st \<noteq> Inl (UsageExit, s)"
    by (cases obj) (simp_all add: pn pw pr)
  with Cons show ?case by (auto split: sum.splits)
qed

lemma writeTurningLoop_no_usage: "writeTurningLoop snk ks st \<noteq> Inl (UsageExit, s)"
proof (induction ks arbitrary: st)
  case Nil
  then show ?case by simp
next
  case (Cons k ks)
  then show ?case by (auto simp: Let_def split: option.splits sinkResult.splits)
qed

lemma main_usage:
  "(\<exists>st. main cl env = Inl (UsageExit, st)) \<longleftrightarrow>
     (case flagParse (parseInt env) cl of
        None \<Rightarrow> True
      | Some flags \<Rightarrow> inputOSM flags = [] \<or> outputNodes flags = [] \<or> startNode flags = 0)"
proof (cases "flagParse (parseInt env) cl")
  case None
  then show ?thesis by (simp add: main_def)
next
  case (Some flags)
  show ?thesis
  proof (cases "inputOSM flags = [] \<or> outputNodes flags = [] \<or> startNode flags = 0")
    case True
    with Some show ?thesis by (auto simp: main_def)
  next
    case False
    have "main cl env \<noteq> Inl (UsageExit, st)" for st
      using Some False scanLoop_no_usage writeTurningLoop_no_usage
      by (auto simp: main_def bind_err_def statisticsOutput_def
          split: sum.splits option.splits if_splits)
    with Some False show ?thesis by simp
  qed
qed

text \<open>
  Claim C6, as amended. \<open>main\<close> ends with the usage help exactly if the command line
  cannot be parsed, the input file name or the output file name is empty, or the start
  identifier is 0 (a flag that is not given has these defaults). The command line cannot
  be parsed exactly if it does not have the form of the three flags or the text given for
  the start identifier does not denote an integer. The sign of the start identifier is
  not looked at, so a negative start identifier is accepted. The usage help has the exit
  status 1; the exit status is 0 exactly when \<open>main\<close> completes, and 2 exactly when it
  panics. A run in which nothing fails and some object of the input has a tag completes;
  a run in which nothing fails before the statistics output and no object of the input has
  a tag panics there.
\<close>

theorem C6_usage_and_exit_status:
  "((\<exists>st. main cl env = Inl (UsageExit, st)) \<longleftrightarrow>
      (case flagParse (parseInt env) cl of
         None \<Rightarrow> True
       | Some flags \<Rightarrow> inputOSM flags = [] \<or> outputNodes flags = [] \<or> startNode flags = 0)) \<and>
   (flagParse (parseInt env) cl = None \<longleftrightarrow>
      \<not> wellFormed cl \<or> (\<exists>s. startNodeArg cl = Some s \<and> parseInt env s = None)) \<and>
   (flagParse (parseInt env) cl = Some flags \<longrightarrow>
      inputOSM flags = (case inputOSMArg cl of None \<Rightarrow> [] | Some s \<Rightarrow> s) \<and>
      outputNodes flags = (case outputNodesArg cl of None \<Rightarrow> [] | Some s \<Rightarrow> s) \<and>
      (case startNodeArg cl of
         None \<Rightarrow> startNode flags = 0
       | Some s \<Rightarrow> parseInt env s = Some (startNode flags))) \<and>
   (\<forall>st. main cl env = Inl (UsageExit, st) \<longrightarrow> exitCode (main cl env) = 1) \<and>
   (exitCode (main cl env) = 0 \<longleftrightarrow> (\<exists>st. main cl env = Inr st)) \<and>
   (exitCode (main cl env) = 2 \<longleftrightarrow> (\<exists>st. main cl env = Inl (Panic, st))) \<and>
   (flagParse (parseInt env) cl = Some flags \<and>
    inputOSM flags \<noteq> [] \<and> outputNodes flags \<noteq> [] \<and> startNode flags \<noteq> 0 \<and>
    alwaysAccepts (outputSink env) \<and> openInputOk env \<and> openOutputOk env \<and> writeHeaderOk env \<and>
    \<not> scannerErr env \<and> finishOk env \<and>
    (\<forall>obj \<in> set (scanned env). objectAccepted obj) \<and>
    (\<exists>obj \<in> set (scanned env). objectTagged obj) \<longrightarrow>
      (\<exists>st. main cl env = Inr st) \<and> exitCode (main cl env) = 0) \<and>
   (flagParse (parseInt env) cl = Some flags \<and>
    inputOSM flags \<noteq> [] \<and> outputNodes flags \<noteq> [] \<and> startNode flags \<noteq> 0 \<and>
    alwaysAccepts (outputSink env) \<and> openInputOk env \<and> openOutputOk env \<and> writeHeaderOk env \<and>
    \<not> scannerErr env \<and>
    (\<forall>obj \<in> set (scanned env). objectAccepted obj) \<and>
    (\<forall>obj \<in> set (scanned env). \<not> objectTagged obj) \<longrightarrow>
      (\<exists>st. main cl env = Inl (Panic, st)) \<and> exitCode (main cl env) = 2)"
proof -
  have a: "(\<exists>st. main cl env = Inl (UsageExit, st)) \<longleftrightarrow>
      (case flagParse (parseInt env) cl of
         None \<Rightarrow> True
       | Some flags \<Rightarrow> inputOSM flags = [] \<or> outputNodes flags = [] \<or> startNode flags = 0)"
    by (rule main_usage)
  have b: "flagParse (parseInt env) cl = None \<longleftrightarrow>
      \<not> wellFormed cl \<or> (\<exists>s. startNodeArg cl = Some s \<and> parseInt env s = None)"
    by (auto simp: flagParse_def split: option.splits)
  have c: "inputOSM flags = (case inputOSMArg cl of None \<Rightarrow> [] | Some s \<Rightarrow> s) \<and>
      outputNodes flags = (case outputNodesArg cl of None \<Rightarrow> [] | Some s \<Rightarrow> s) \<and>
      (case startNodeArg cl of
         None \<Rightarrow> startNode flags = 0
       | Some s \<Rightarrow> parseInt env s = Some (startNode flags))"
    if "flagParse (parseInt env) cl = Some flags"
    using that by (auto simp: flagParse_def split: option.splits if_splits)
  have d: "exitCode (main cl env) = 1" if "main cl env = Inl (UsageExit, st)" for st
    using that by (simp add: exitCode_def)
  have e: "exitCode (main cl env) = 0 \<longleftrightarrow> (\<exists>st. main cl env = Inr st)"
    by (cases "main cl env") (auto simp: exitCode_def split: if_splits)
  have f: "exitCode (main cl env) = 2 \<longleftrightarrow> (\<exists>st. main cl env = Inl (Panic, st))"
    by (cases "main cl env") (auto simp: exitCode_def split: if_splits)
  have g: "(\<exists>st. main cl env = Inr st) \<and> exitCode (main cl env) = 0"
    if "flagParse (parseInt env) cl = Some flags \<and>
    inputOSM flags \<noteq> [] \<and> outputNodes flags \<noteq> [] \<and> startNode flags \<noteq> 0 \<and>
    alwaysAccepts (outputSink env) \<and> openInputOk env \<and> openOutputOk env \<and> writeHeaderOk env \<and>
    \<not> scannerErr env \<and> finishOk env \<and>
    (\<forall>obj \<in> set (scanned env). objectAccepted obj) \<and>
    (\<exists>obj \<in> set (scanned env). objectTagged obj)"
  proof -
    from that main_accept [of env cl flags] obtain st where "main cl env = Inr st"
      by blast
    then show ?thesis by (simp add: exitCode_def)
  qed
  have h: "(\<exists>st. main cl env = Inl (Panic, st)) \<and> exitCode (main cl env) = 2"
    if "flagParse (parseInt env) cl = Some flags \<and>
    inputOSM flags \<noteq> [] \<and> outputNodes flags \<noteq> [] \<and> startNode flags \<noteq> 0 \<and>
    alwaysAccepts (outputSink env) \<and> openInputOk env \<and> openOutputOk env \<and> writeHeaderOk env \<and>
    \<not> scannerErr env \<and>
    (\<forall>obj \<in> set (scanned env). objectAccepted obj) \<and>
    (\<forall>obj \<in> set (scanned env). \<not> objectTagged obj)"
  proof -
    from that main_untagged [of env cl flags] obtain st where "main cl env = Inl (Panic, st)"
      by blast
    then show ?thesis by (simp add: exitCode_def)
  qed
  from a b c d e f g h show ?thesis by blast
qed

text \<open>
  With the start identifier 0, and with a start identifier that is not an integer, the
  run ends with the usage help and the exit status 1; with the start identifier 1000 it
  completes with 0 when the input is a node with tags, and panics with 2 when the input
  is empty.
\<close>

theorem C6_witness:
  "exitCode (main (exampleCommandLine ''0'') (exampleEnv [])) = 1 \<and>
   exitCode (main (exampleCommandLine ''abc'') (exampleEnv [])) = 1 \<and>
   exitCode (main (exampleCommandLine ''1000'') (exampleEnv [ONode (exampleJunction tagsRcn)])) = 0 \<and>
   exitCode (main (exampleCommandLine ''1000'') (exampleEnv [])) = 2"
proof -
  let ?flags = "\<lambda>n. \<lparr>inputOSM = ''osmdata.pbf'', outputNodes = ''osmpp.xml'', startNode = n\<rparr>"
  have parse: "flagParse (parseInt (exampleEnv objs)) (exampleCommandLine ''1000'') = Some (?flags 1000)"
    "flagParse (parseInt (exampleEnv objs)) (exampleCommandLine ''0'') = Some (?flags 0)"
    "flagParse (parseInt (exampleEnv objs)) (exampleCommandLine ''abc'') = None" for objs
    by (simp_all add: flagParse_def exampleCommandLine_def exampleEnv_def decimal_examples)
  have env: "alwaysAccepts (outputSink (exampleEnv objs))" "openInputOk (exampleEnv objs)"
    "openOutputOk (exampleEnv objs)" "writeHeaderOk (exampleEnv objs)"
    "\<not> scannerErr (exampleEnv objs)" "finishOk (exampleEnv objs)"
    "scanned (exampleEnv objs) = objs" for objs
    by (simp_all add: exampleEnv_def)
  have 1: "exitCode (main (exampleCommandLine ''0'') (exampleEnv [])) = 1"
  proof -
    from C6_usage_and_exit_status [of "exampleCommandLine ''0''" "exampleEnv []" "?flags 0"]
    have "\<exists>st. main (exampleCommandLine ''0'') (exampleEnv []) = Inl (UsageExit, st)"
      by (simp add: parse)
    then show ?thesis by (auto simp: exitCode_def)
  qed
  have 2: "exitCode (main (exampleCommandLine ''abc'') (exampleEnv [])) = 1"
  proof -
    from C6_usage_and_exit_status [of "exampleCommandLine ''abc''" "exampleEnv []" "?flags 0"]
    have "\<exists>st. main (exampleCommandLine ''abc'') (exampleEnv []) = Inl (UsageExit, st)"
      by (simp add: parse)
    then show ?thesis by (auto simp: exitCode_def)
  qed
  have 3: "exitCode (main (exampleCommandLine ''1000'') (exampleEnv [ONode (exampleJunction tagsRcn)])) = 0"
    using C6_usage_and_exit_status
      [of "exampleCommandLine ''1000''" "exampleEnv [ONode (exampleJunction tagsRcn)]" "?flags 1000"]
    by (simp add: parse env idAccepted_def exampleJunction_def tagsRcn_def)
  have 4: "exitCode (main (exampleCommandLine ''1000'') (exampleEnv [])) = 2"
    using C6_usage_and_exit_status [of "exampleCommandLine ''1000''" "exampleEnv []" "?flags 1000"]
    by (simp add: parse env)
  from 1 2 3 4 show ?thesis by simp
qed

text \<open>
  Claim C6 as stated fails for a negative start identifier: \<open>-startNode=-5\<close> is an integer
  that is not positive, yet the run over a node with tags does not end with the usage
  help: it completes and exits with 0.
\<close>

theorem C6_counterexample:
  "flagParse decimal (exampleCommandLine ''-5'') =
     Some \<lparr>inputOSM = ''osmdata.pbf'', outputNodes = ''osmpp.xml'', startNode = - 5\<rparr> \<and>
   sint (- 5 :: 64 word) = - 5 \<and>
   returned (main (exampleCommandLine ''-5'') (exampleEnv [ONode (exampleJunction tagsRcnRwn)])) \<and>
   exitCode (main (exampleCommandLine ''-5'') (exampleEnv [ONode (exampleJunction tagsRcnRwn)])) = 0 \<and>
   writtenIDs (main (exampleCommandLine ''-5'') (exampleEnv [ONode (exampleJunction tagsRcnRwn)])) =
     [- 5, - 4]"
proof -
  have ne: "(- 5 :: 64 word) \<noteq> 0" by simp
  note run = main_example_two [OF decimal_examples(2) ne]
  have "exitCode (main (exampleCommandLine ''-5'') (exampleEnv [ONode (exampleJunction tagsRcnRwn)])) = 0"
    using run(1) by (auto simp: returned_iff exitCode_def)
  moreover have "flagParse decimal (exampleCommandLine ''-5'') =
     Some \<lparr>inputOSM = ''osmdata.pbf'', outputNodes = ''osmpp.xml'', startNode = - 5\<rparr>"
    by (simp add: flagParse_def exampleCommandLine_def decimal_examples)
  ultimately show ?thesis
    using run by (simp add: writtenIDs_def)
qed


text \<open>
  Claim C5 as stated fails for a turning circle that arrives with a tag \<open>fzk_turning\<close> of
  its own and that no way references: it is written as it arrived, without
  \<open>fzk_turning = not_set\<close>.
\<close>

theorem C5_counterexample:
  "returned (main (exampleCommandLine ''1000'') (exampleEnv [ONode (exampleTurning tagsOwnFzk)])) \<and>
   writer (finalState
     (main (exampleCommandLine ''1000'') (exampleEnv [ONode (exampleTurning tagsOwnFzk)]))) =
     [exampleTurning tagsOwnFzk] \<and>
   \<lparr>Key = ''fzk_turning'', Value = ''not_set''\<rparr> \<notin> set (Tags (exampleTurning tagsOwnFzk))"
proof -
  let ?e = "exampleTurning tagsOwnFzk"
  have tm: "TagMap tagsOwnFzk = [''highway'' \<mapsto> ''turning_circle'', ''fzk_turning'' \<mapsto> ''service'']"
    by (simp add: TagMap_def tagsOwnFzk_def)
  have e: "idAccepted (ID ?e)" "Tags ?e \<noteq> []" "isTurning ?e \<longrightarrow> ID ?e = 77" "isTurning ?e"
    "annotate1 ''not_set'' ?e = ?e" "synthesized ?e 1000 = []"
    "\<lparr>Key = ''fzk_turning'', Value = ''not_set''\<rparr> \<notin> set (Tags ?e)"
    by (simp_all add: idAccepted_def exampleTurning_def isTurning_def tm annotate1_def
        synthesized_def)
       (simp_all add: tagsOwnFzk_def)
  have ne: "(1000 :: 64 word) \<noteq> 0" by simp
  note run = main_single [OF decimal_examples(1) ne e(1-3)]
  from run e(4-7) show ?thesis by simp
qed

subsection \<open>The source record in the store\<close>

lemma synthStep_trans:
  "synthStep v0 q rs s s' \<Longrightarrow> synthStep v0 q rs' s' s'' \<Longrightarrow> synthStep v0 q (rs @ rs') s s''"
  by (simp add: synthStep_def derivedAll_append add.assoc)

lemma appendTag_fresh:
  assumes "appendTag grow as s x = (as', s')" "validSlice as s" "cap s = 0 \<or> N \<le> arr s"
    "N \<le> length as"
  shows "validSlice as' s' \<and> N \<le> arr s' \<and> cap s' \<noteq> 0 \<and>
         contents as' s' = contents as s @ [x] \<and>
         length as \<le> length as' \<and> (\<forall>a < N. as' ! a = as ! a)"
proof (cases "len s < cap s")
  case True
  with assms(2,3) have a: "arr s < length as" "length (as ! arr s) = cap s" "N \<le> arr s"
    by (auto simp: validSlice_def)
  from True assms(1) have r: "as' = as[arr s := (as ! arr s)[len s := x]]" "s' = s\<lparr>len := len s + 1\<rparr>"
    by (auto simp: appendTag_def)
  have "take (Suc (len s)) ((as ! arr s)[len s := x]) = take (len s) (as ! arr s) @ [x]"
    using True a(2) by (simp add: take_Suc_conv_app_nth)
  then show ?thesis
    using True a r by (auto simp: validSlice_def contents_def)
next
  case False
  with assms(2) have l: "len s = cap s" by (simp add: validSlice_def)
  from False assms(1) have r:
    "as' = as @ [take (len s) (as ! arr s) @ x # replicate (grow (cap s)) \<lparr>Key = [], Value = []\<rparr>]"
    "s' = \<lparr>arr = length as, len = len s + 1, cap = len s + 1 + grow (cap s)\<rparr>"
    by (auto simp: appendTag_def)
  have tl: "length (take (len s) (as ! arr s)) = len s"
    using assms(2) l by (auto simp: validSlice_def)
  then have "take (Suc (len s)) (take (len s) (as ! arr s) @ x # replicate (grow (cap s)) \<lparr>Key = [], Value = []\<rparr>)
      = take (len s) (as ! arr s) @ [x]"
    by simp
  then show ?thesis
    using r tl assms(4) by (auto simp: validSlice_def contents_def nth_append)
qed

lemma validSlice_readable: "validSlice (arrays s) (Tags (cells s ! p)) \<Longrightarrow> readable s p"
  by (auto simp: validSlice_def readable_def)

lemma synthStep_load:
  assumes "synthStep v0 q rs s s'" "p \<noteq> q" "readable s p"
  shows "load s' p = load s p \<and> readable s' p \<and> cells s' ! p = cells s ! p"
proof -
  from assms(1,2) have c: "cells s' ! p = cells s ! p"
    by (simp add: synthStep_def)
  from assms(1) have a: "length (arrays s) \<le> length (arrays s')"
    "\<forall>a < length (arrays s). arrays s' ! a = arrays s ! a"
    by (simp_all add: synthStep_def)
  have "contents (arrays s') (Tags (cells s ! p)) = contents (arrays s) (Tags (cells s ! p))"
    using assms(3) a(2) by (auto simp: readable_def contents_def)
  moreover have "readable s' p"
    using assms(3) a(1) c by (auto simp: readable_def)
  ultimately show ?thesis
    using c by (simp add: load_def)
qed

lemma contents_emptySlice [simp]: "contents as emptySlice = []"
  by (simp add: contents_def emptySlice_def)

lemma appendToNode_eq:
  "appendTag grow (arrays st) (Tags (cells st ! q)) tag = (as, s) \<Longrightarrow>
   appendToNode grow q tag st = st\<lparr>arrays := as, cells := (cells st)[q := (cells st ! q)\<lparr>Tags := s\<rparr>]\<rparr>"
  by (simp add: appendToNode_def)

lemma section_emit:
  assumes "alwaysAccepts snk" "p < length (cells s0)" "q < length (cells s0)" "p \<noteq> q"
    "load s0 p = v0"
  shows "\<exists>s'. appendAndWrite_h grow snk q label v (copySource p q s0) = Inr s' \<and>
           synthStep v0 q [(label, v)] s0 s'"
proof -
  let ?t1 = "\<lparr>Key = ''node_network'', Value = label\<rparr>" and ?t2 = "\<lparr>Key = ''name'', Value = v\<rparr>"
  let ?N = "length (arrays s0)"
  let ?n0 = "(cells s0 ! p)\<lparr>ID := 0, Tags := emptySlice\<rparr>"
  define sa where "sa = s0\<lparr>cells := (cells s0)[q := ?n0]\<rparr>"
  have sa: "copySource p q s0 = sa"
    using assms(3) by (simp add: copySource_def Let_def sa_def)
  obtain as1 s1 where 1: "appendTag grow (arrays s0) emptySlice ?t1 = (as1, s1)"
    by (cases "appendTag grow (arrays s0) emptySlice ?t1") auto
  have f1: "validSlice as1 s1 \<and> ?N \<le> arr s1 \<and> cap s1 \<noteq> 0 \<and>
         contents as1 s1 = contents (arrays s0) emptySlice @ [?t1] \<and>
         ?N \<le> length as1 \<and> (\<forall>a < ?N. as1 ! a = arrays s0 ! a)"
    by (rule appendTag_fresh [OF 1]) (simp_all add: validSlice_def emptySlice_def)
  obtain as2 s2 where 2: "appendTag grow as1 s1 ?t2 = (as2, s2)"
    by (cases "appendTag grow as1 s1 ?t2") auto
  have f2: "validSlice as2 s2 \<and> ?N \<le> arr s2 \<and> cap s2 \<noteq> 0 \<and>
         contents as2 s2 = contents as1 s1 @ [?t2] \<and>
         length as1 \<le> length as2 \<and> (\<forall>a < ?N. as2 ! a = as1 ! a)"
    by (rule appendTag_fresh [OF 2]) (use f1 in simp_all)
  define sb where "sb = s0\<lparr>arrays := as1, cells := (cells s0)[q := ?n0\<lparr>Tags := s1\<rparr>]\<rparr>"
  have sb: "appendToNode grow q ?t1 sa = sb"
    using assms(3) 1 by (subst appendToNode_eq [where as = as1 and s = s1]) (simp_all add: sa_def sb_def)
  define sc where "sc = s0\<lparr>arrays := as2, cells := (cells s0)[q := ?n0\<lparr>Tags := s2\<rparr>]\<rparr>"
  have sc: "appendToNode grow q ?t2 sb = sc"
    using assms(3) 2 by (subst appendToNode_eq [where as = as2 and s = s2]) (simp_all add: sb_def sc_def)
  define se where "se = s0\<lparr>arrays := as2,
      cells := (cells s0)[q := ?n0\<lparr>Tags := s2, ID := hNewNodeID s0\<rparr>],
      hNewNodeID := hNewNodeID s0 + 1\<rparr>"
  have "contents as2 s2 = [?t1, ?t2]"
    using f1 f2 by simp
  then have ld: "load se q = derived v0 (hNewNodeID s0) label v"
    using assms(3) assms(5) [symmetric] by (simp add: load_def Let_def se_def derived_def)
  define s' where "s' = se\<lparr>hWriter := hWriter se @ [load se q]\<rparr>"
  have "writeNewNodeObject_h snk q sc = Inr s'"
    using assms(1,3) by (simp add: writeNewNodeObject_h_def alwaysAccepts_def Let_def sc_def se_def s'_def)
  then have run: "appendAndWrite_h grow snk q label v (copySource p q s0) = Inr s'"
    by (simp add: appendAndWrite_h_def Let_def sa sb sc)
  have "synthStep v0 q [(label, v)] s0 s'"
    unfolding synthStep_def
  proof (intro conjI)
    show "length (cells s') = length (cells s0)" by (simp add: s'_def se_def)
    show "\<forall>a. a \<noteq> q \<longrightarrow> cells s' ! a = cells s0 ! a" by (simp add: s'_def se_def)
    show "length (arrays s0) \<le> length (arrays s')" using f1 f2 by (simp add: s'_def se_def)
    show "\<forall>a < length (arrays s0). arrays s' ! a = arrays s0 ! a" using f1 f2 by (simp add: s'_def se_def)
    show "hWriter s' = hWriter s0 @ derivedAll v0 (hNewNodeID s0) [(label, v)]"
      using ld by (simp add: s'_def) (simp add: se_def)
    show "hNewNodeID s' = hNewNodeID s0 + of_nat (length [(label, v)])" by (simp add: s'_def se_def)
  qed (simp_all add: s'_def se_def)
  with run show ?thesis by blast
qed

lemma section_none:
  "q < length (cells s0) \<Longrightarrow> synthStep v0 q [] s0 (copySource p q s0)"
  by (simp add: synthStep_def copySource_def Let_def)

lemma networkSingle_h_step:
  assumes "alwaysAccepts snk" "p < length (cells s0)" "q < length (cells s0)" "p \<noteq> q"
    "load s0 p = v0"
  shows "\<exists>s'. networkSingle_h k label grow snk p q tags s0 = Inr s' \<and>
           synthStep v0 q (request label (tags k)) s0 s'"
proof (cases "tags k")
  case None
  then show ?thesis
    using section_none [OF assms(3)] by (simp add: networkSingle_h_def request_def)
next
  case (Some v)
  then show ?thesis
    using section_emit [OF assms] by (simp add: networkSingle_h_def request_def)
qed

lemma networkBicycle_h_step:
  assumes "alwaysAccepts snk" "p < length (cells s0)" "q < length (cells s0)" "p \<noteq> q"
    "load s0 p = v0"
  shows "\<exists>s'. networkBicycle_h grow snk p q tags s0 = Inr s' \<and>
           synthStep v0 q (request ''node_bicycle'' (firstPresent tags bicycleKeys)) s0 s'"
  using section_none [OF assms(3), of v0 p] section_emit [OF assms, of grow "''node_bicycle''"]
  by (simp add: networkBicycle_h_def request_def bicycleKeys_def split: option.splits)

lemma networkHiking_h_step:
  assumes "alwaysAccepts snk" "p < length (cells s0)" "q < length (cells s0)" "p \<noteq> q"
    "load s0 p = v0"
  shows "\<exists>s'. networkHiking_h grow snk p q tags s0 = Inr s' \<and>
           synthStep v0 q (request ''node_hiking'' (firstPresent tags hikingKeys)) s0 s'"
  using section_none [OF assms(3), of v0 p] section_emit [OF assms, of grow "''node_hiking''"]
  by (simp add: networkHiking_h_def request_def hikingKeys_def split: option.splits)

lemma synthStep_next:
  assumes "synthStep v0 q rs s s'" "p \<noteq> q" "readable s p" "p < length (cells s)"
    "q < length (cells s)" "load s p = v0"
  shows "p < length (cells s') \<and> q < length (cells s') \<and> load s' p = v0 \<and> readable s' p"
  using synthStep_load [OF assms(1-3)] assms(1,4-6) by (simp add: synthStep_def)

lemma createNewNodeNetworkObject_h_step:
  assumes acc: "alwaysAccepts snk" and p: "p < length (cells st)" and r: "readable st p"
  shows "\<exists>st'. createNewNodeNetworkObject_h grow snk p st = Inr st' \<and>
           synthStep (load st p) (length (cells st)) (requests (TagMap (Tags (load st p))))
             (st\<lparr>cells := cells st @ [cells st ! p]\<rparr>) st'"
proof -
  let ?v0 = "load st p" and ?q = "length (cells st)"
  let ?tags = "TagMap (Tags (load st p))"
  let ?s0 = "st\<lparr>cells := cells st @ [cells st ! p]\<rparr>"
  have pq: "p \<noteq> ?q" using p by simp
  have i0: "p < length (cells ?s0) \<and> ?q < length (cells ?s0) \<and> load ?s0 p = ?v0 \<and> readable ?s0 p"
    using p r by (simp add: load_def readable_def nth_append)
  from networkBicycle_h_step [OF acc, of p ?s0 ?q ?v0 grow ?tags] i0 pq
  obtain s1 where 1: "networkBicycle_h grow snk p ?q ?tags ?s0 = Inr s1"
    "synthStep ?v0 ?q (request ''node_bicycle'' (firstPresent ?tags bicycleKeys)) ?s0 s1"
    by auto
  have i1: "p < length (cells s1) \<and> ?q < length (cells s1) \<and> load s1 p = ?v0 \<and> readable s1 p"
    using synthStep_next [OF 1(2) pq] i0 by simp
  from networkHiking_h_step [OF acc, of p s1 ?q ?v0 grow ?tags] i1 pq
  obtain s2 where 2: "networkHiking_h grow snk p ?q ?tags s1 = Inr s2"
    "synthStep ?v0 ?q (request ''node_hiking'' (firstPresent ?tags hikingKeys)) s1 s2"
    by auto
  have i2: "p < length (cells s2) \<and> ?q < length (cells s2) \<and> load s2 p = ?v0 \<and> readable s2 p"
    using synthStep_next [OF 2(2) pq] i1 by simp
  from networkSingle_h_step [OF acc, of p s2 ?q ?v0 "''rin_ref''" "''node_inline_skates''" grow ?tags] i2 pq
  obtain s3 where 3: "networkSingle_h ''rin_ref'' ''node_inline_skates'' grow snk p ?q ?tags s2 = Inr s3"
    "synthStep ?v0 ?q (request ''node_inline_skates'' (?tags ''rin_ref'')) s2 s3"
    by auto
  have i3: "p < length (cells s3) \<and> ?q < length (cells s3) \<and> load s3 p = ?v0 \<and> readable s3 p"
    using synthStep_next [OF 3(2) pq] i2 by simp
  from networkSingle_h_step [OF acc, of p s3 ?q ?v0 "''rhn_ref''" "''node_horse''" grow ?tags] i3 pq
  obtain s4 where 4: "networkSingle_h ''rhn_ref'' ''node_horse'' grow snk p ?q ?tags s3 = Inr s4"
    "synthStep ?v0 ?q (request ''node_horse'' (?tags ''rhn_ref'')) s3 s4"
    by auto
  have i4: "p < length (cells s4) \<and> ?q < length (cells s4) \<and> load s4 p = ?v0 \<and> readable s4 p"
    using synthStep_next [OF 4(2) pq] i3 by simp
  from networkSingle_h_step [OF acc, of p s4 ?q ?v0 "''rpn_ref''" "''node_canoe''" grow ?tags] i4 pq
  obtain s5 where 5: "networkSingle_h ''rpn_ref'' ''node_canoe'' grow snk p ?q ?tags s4 = Inr s5"
    "synthStep ?v0 ?q (request ''node_canoe'' (?tags ''rpn_ref'')) s4 s5"
    by auto
  have i5: "p < length (cells s5) \<and> ?q < length (cells s5) \<and> load s5 p = ?v0 \<and> readable s5 p"
    using synthStep_next [OF 5(2) pq] i4 by simp
  from networkSingle_h_step [OF acc, of p s5 ?q ?v0 "''rmn_ref''" "''node_motorboat''" grow ?tags] i5 pq
  obtain s6 where 6: "networkSingle_h ''rmn_ref'' ''node_motorboat'' grow snk p ?q ?tags s5 = Inr s6"
    "synthStep ?v0 ?q (request ''node_motorboat'' (?tags ''rmn_ref'')) s5 s6"
    by auto
  have run: "createNewNodeNetworkObject_h grow snk p st = Inr s6"
    using 1(1) 2(1) 3(1) 4(1) 5(1) 6(1)
    by (simp add: createNewNodeNetworkObject_h_def Let_def bind_err_def)
  have "synthStep ?v0 ?q (requests ?tags) ?s0 s6"
    unfolding requests_chains
    by (intro synthStep_trans [OF 1(2)] synthStep_trans [OF 2(2)] synthStep_trans [OF 3(2)]
        synthStep_trans [OF 4(2)] synthStep_trans [OF 5(2)] 6(2))
  with run show ?thesis by blast
qed

lemma synthStep_frame:
  assumes "synthStep v0 (length (cells st)) rs (st\<lparr>cells := cells st @ [c]\<rparr>) st'"
  shows "take (length (cells st)) (cells st') = cells st"
    and "take (length (arrays st)) (arrays st') = arrays st"
proof -
  from assms have l: "length (cells st') = Suc (length (cells st))"
    and c: "\<forall>a. a \<noteq> length (cells st) \<longrightarrow> cells st' ! a = (cells st @ [c]) ! a"
    and la: "length (arrays st) \<le> length (arrays st')"
    and a: "\<forall>a < length (arrays st). arrays st' ! a = arrays st ! a"
    by (simp_all add: synthStep_def)
  show "take (length (cells st)) (cells st') = cells st"
    using l c by (intro nth_equalityI) (auto simp: nth_append)
  show "take (length (arrays st)) (arrays st') = arrays st"
    using la a by (intro nth_equalityI) auto
qed

lemma createNewNodeNetworkObject_h_accept:
  assumes "alwaysAccepts snk" "p < length (cells st)" "readable st p"
  shows "\<exists>st'. createNewNodeNetworkObject_h grow snk p st = Inr st' \<and>
           take (length (cells st)) (cells st') = cells st \<and>
           take (length (arrays st)) (arrays st') = arrays st \<and>
           (\<forall>a < length (cells st). readable st a \<longrightarrow> load st' a = load st a \<and> readable st' a) \<and>
           hTurningCircleLoop st' = hTurningCircleLoop st \<and>
           hWriter st' = hWriter st @
             derivedAll (load st p) (hNewNodeID st) (requests (TagMap (Tags (load st p)))) \<and>
           (heapInv st \<longrightarrow>
              abstract st' = emitAll (load st p) (requests (TagMap (Tags (load st p)))) (abstract st))"
proof -
  let ?s0 = "st\<lparr>cells := cells st @ [cells st ! p]\<rparr>"
  let ?rs = "requests (TagMap (Tags (load st p)))"
  from createNewNodeNetworkObject_h_step [OF assms, of grow]
  obtain st' where 1: "createNewNodeNetworkObject_h grow snk p st = Inr st'"
    "synthStep (load st p) (length (cells st)) ?rs ?s0 st'"
    by blast
  have ld: "load st' a = load st a \<and> readable st' a" if "a < length (cells st)" "readable st a" for a
  proof -
    have "readable ?s0 a" "load ?s0 a = load st a"
      using that by (simp_all add: readable_def load_def nth_append)
    moreover have "a \<noteq> length (cells st)" using that by simp
    ultimately show ?thesis
      using synthStep_load [OF 1(2), of a] by simp
  qed
  have "map_option (load st') (hTurningCircleLoop st i) = map_option (load st) (hTurningCircleLoop st i)"
    if "heapInv st" for i
    using that ld by (cases "hTurningCircleLoop st i") (auto simp: heapInv_def)
  then have ab: "abstract st' = emitAll (load st p) ?rs (abstract st)" if "heapInv st"
    using 1(2) that by (simp add: abstract_def emitAll_def synthStep_def)
  have "hTurningCircleLoop st' = hTurningCircleLoop st"
    "hWriter st' = hWriter st @ derivedAll (load st p) (hNewNodeID st) ?rs"
    using 1(2) by (simp_all add: synthStep_def)
  with 1(1) synthStep_frame [OF 1(2)] ld ab show ?thesis by blast
qed

lemma load_same:
  "cells st' = cells st \<Longrightarrow> arrays st' = arrays st \<Longrightarrow> load st' = load st"
  by (simp add: load_def fun_eq_iff)

lemma load_updates:
  "load (st\<lparr>hTurningCircleLoop := t\<rparr>) = load st"
  "load (st\<lparr>hTurningCirclePointsFound := n\<rparr>) = load st"
  "load (st\<lparr>hTurningLoopPointsFound := n\<rparr>) = load st"
  "load (st\<lparr>hJunctionPointsFound := n\<rparr>) = load st"
  "load (st\<lparr>hNodes := n\<rparr>) = load st"
  "load (st\<lparr>hStats := s\<rparr>) = load st"
  by (rule load_same, simp, simp)+

lemma abstract_register:
  "abstract (st\<lparr>hTurningCircleLoop := (hTurningCircleLoop st)(i \<mapsto> p)\<rparr>) =
     (abstract st)\<lparr>turningCircleLoop := (turningCircleLoop (abstract st))(i \<mapsto> load st p)\<rparr>"
  "abstract (st\<lparr>hTurningCirclePointsFound := n\<rparr>) = (abstract st)\<lparr>turningCirclePointsFound := n\<rparr>"
  "abstract (st\<lparr>hTurningLoopPointsFound := n\<rparr>) = (abstract st)\<lparr>turningLoopPointsFound := n\<rparr>"
  "abstract (st\<lparr>hJunctionPointsFound := n\<rparr>) = (abstract st)\<lparr>junctionPointsFound := n\<rparr>"
  "abstract (st\<lparr>hNodes := n\<rparr>) = (abstract st)\<lparr>nodes := n\<rparr>"
  "abstract (st\<lparr>hStats := s\<rparr>) = (abstract st)\<lparr>stats := s\<rparr>"
  by (auto simp: abstract_def load_updates fun_eq_iff)

lemma processNode_h_panic:
  "elementType (nodeElementID (load st p)) = None \<Longrightarrow>
   processNode_h grow snk p st = Inl (Panic, st\<lparr>hNodes := hNodes st + 1\<rparr>)"
  using elementStats_Add_None [of "nodeElementID (load st p)" "Tags (load st p)" "hStats st"]
  by (simp add: processNode_h_def Let_def load_updates)

lemma processNode_h_accept:
  assumes acc: "alwaysAccepts snk" and p: "p < length (cells st)" and r: "readable st p"
    and ida: "idAccepted (ID (load st p))"
  shows "\<exists>st'. processNode_h grow snk p st = Inr st' \<and>
           take (length (cells st)) (cells st') = cells st \<and>
           take (length (arrays st)) (arrays st') = arrays st \<and>
           load st' p = load st p \<and>
           hTurningCircleLoop st' =
             (if isTurning (load st p) then (hTurningCircleLoop st)(ID (load st p) \<mapsto> p)
              else hTurningCircleLoop st) \<and>
           hWriter st' = hWriter st @ synthesized (load st p) (hNewNodeID st) \<and>
           (heapInv st \<longrightarrow> heapInv st' \<and>
              processNode snk (load st p) (abstract st) = Inr (abstract st'))"
proof -
  let ?e = "load st p"
  let ?tags = "TagMap (Tags ?e)"
  from elementStats_Add_node [OF ida, of "Tags ?e" "hStats st"]
  obtain s where s: "elementStats_Add (nodeElementID ?e) (Tags ?e) (hStats st) = Some s"
    by blast
  let ?sn = "st\<lparr>hNodes := hNodes st + 1, hStats := s\<rparr>"
  let ?sj = "?sn\<lparr>hJunctionPointsFound := hJunctionPointsFound ?sn + 1\<rparr>"
  define net where "net \<longleftrightarrow> ?tags ''network:type'' = Some ''node_network''"
  have pj: "p < length (cells ?sj)" "readable ?sj p" "load ?sj = load st"
    using p r by (simp_all add: readable_def load_updates)
  have absn: "abstract ?sn = (abstract st)\<lparr>nodes := nodes (abstract st) + 1, stats := s\<rparr>"
    by (simp add: abstract_def load_updates)
  \<comment> \<open>the synthesis part\<close>
  have "\<exists>s1. (if net then createNewNodeNetworkObject_h grow snk p ?sj else Inr ?sn) = Inr s1 \<and>
           take (length (cells st)) (cells s1) = cells st \<and>
           take (length (arrays st)) (arrays s1) = arrays st \<and>
           (\<forall>a < length (cells st). readable st a \<longrightarrow> load s1 a = load st a \<and> readable s1 a) \<and>
           hTurningCircleLoop s1 = hTurningCircleLoop st \<and>
           hWriter s1 = hWriter st @ synthesized ?e (hNewNodeID st) \<and>
           (heapInv st \<longrightarrow>
              (if net then createNewNodeNetworkObject snk ?e
                             ((abstract st)\<lparr>nodes := nodes (abstract st) + 1, stats := s,
                                junctionPointsFound := junctionPointsFound (abstract st) + 1\<rparr>)
               else Inr ((abstract st)\<lparr>nodes := nodes (abstract st) + 1, stats := s\<rparr>)) =
              Inr (abstract s1))"
  proof (cases net)
    case True
    from createNewNodeNetworkObject_h_accept [OF acc pj(1,2), of grow]
    obtain s1 where s1j: "createNewNodeNetworkObject_h grow snk p ?sj = Inr s1"
      "take (length (cells ?sj)) (cells s1) = cells ?sj"
      "take (length (arrays ?sj)) (arrays s1) = arrays ?sj"
      "\<forall>a < length (cells ?sj). readable ?sj a \<longrightarrow> load s1 a = load ?sj a \<and> readable s1 a"
      "hTurningCircleLoop s1 = hTurningCircleLoop ?sj"
      "hWriter s1 = hWriter ?sj @
         derivedAll (load ?sj p) (hNewNodeID ?sj) (requests (TagMap (Tags (load ?sj p))))"
      "heapInv ?sj \<longrightarrow>
         abstract s1 = emitAll (load ?sj p) (requests (TagMap (Tags (load ?sj p)))) (abstract ?sj)"
      by blast
    have s1: "createNewNodeNetworkObject_h grow snk p ?sj = Inr s1"
      "take (length (cells st)) (cells s1) = cells st"
      "take (length (arrays st)) (arrays s1) = arrays st"
      "\<forall>a < length (cells st). readable ?sj a \<longrightarrow> load s1 a = load st a \<and> readable s1 a"
      "hTurningCircleLoop s1 = hTurningCircleLoop st"
      "hWriter s1 = hWriter st @ derivedAll ?e (hNewNodeID st) (requests ?tags)"
      "heapInv ?sj \<longrightarrow> abstract s1 = emitAll ?e (requests ?tags) (abstract ?sj)"
      using s1j unfolding pj(3) by simp_all
    have "createNewNodeNetworkObject snk ?e
            ((abstract st)\<lparr>nodes := nodes (abstract st) + 1, stats := s,
               junctionPointsFound := junctionPointsFound (abstract st) + 1\<rparr>) = Inr (abstract s1)"
      if "heapInv st"
    proof -
      have "heapInv ?sj" using that by (simp add: heapInv_def readable_def)
      with s1(7) have "abstract s1 = emitAll ?e (requests ?tags) (abstract ?sj)" by simp
      moreover have "abstract ?sj = (abstract st)\<lparr>nodes := nodes (abstract st) + 1, stats := s,
               junctionPointsFound := junctionPointsFound (abstract st) + 1\<rparr>"
        by (simp add: abstract_def load_updates)
      ultimately show ?thesis
        by (simp add: createNewNodeNetworkObject_accept [OF acc])
    qed
    moreover have "\<forall>a < length (cells st). readable st a \<longrightarrow> load s1 a = load st a \<and> readable s1 a"
      using s1(4) by (simp add: readable_def)
    ultimately show ?thesis
      using True s1(1,2,3,5,6) unfolding synthesized_def net_def by auto
  next
    case False
    then show ?thesis
      using absn unfolding synthesized_def net_def
      by (auto simp: load_updates readable_def)
  qed
  then obtain s1 where s1:
    "(if net then createNewNodeNetworkObject_h grow snk p ?sj else Inr ?sn) = Inr s1"
    "take (length (cells st)) (cells s1) = cells st"
    "take (length (arrays st)) (arrays s1) = arrays st"
    "\<forall>a < length (cells st). readable st a \<longrightarrow> load s1 a = load st a \<and> readable s1 a"
    "hTurningCircleLoop s1 = hTurningCircleLoop st"
    "hWriter s1 = hWriter st @ synthesized ?e (hNewNodeID st)"
    "heapInv st \<longrightarrow>
       (if net then createNewNodeNetworkObject snk ?e
                      ((abstract st)\<lparr>nodes := nodes (abstract st) + 1, stats := s,
                         junctionPointsFound := junctionPointsFound (abstract st) + 1\<rparr>)
        else Inr ((abstract st)\<lparr>nodes := nodes (abstract st) + 1, stats := s\<rparr>)) =
       Inr (abstract s1)"
    by blast
  have l1: "load s1 p = ?e" "readable s1 p"
    using s1(4) p r by simp_all
  have c1: "cells s1 ! p = cells st ! p"
    using s1(2) p by (metis nth_take)
  have id1: "ID (cells s1 ! p) = ID ?e"
    using c1 by (simp add: load_def Let_def)
  have len1: "length (cells st) \<le> length (cells s1)"
    using s1(2) by (metis length_take min.cobounded2 min.commute)
  \<comment> \<open>the registration part\<close>
  let ?reg = "registerTurning_h p ?tags s1"
  have regs: "cells ?reg = cells s1" "arrays ?reg = arrays s1" "hWriter ?reg = hWriter s1"
    "hTurningCircleLoop ?reg =
       (if isTurning ?e then (hTurningCircleLoop s1)(ID ?e \<mapsto> p) else hTurningCircleLoop s1)"
    by (auto simp: registerTurning_h_def isTurning_def Let_def id1 split: option.splits)
  have areg: "abstract ?reg = registerTurning ?e ?tags (abstract s1)"
    unfolding registerTurning_h_def registerTurning_def
    by (auto simp: Let_def abstract_def load_updates id1 l1(1) fun_eq_iff split: option.splits)
  have inv: "heapInv ?reg" if "heapInv st"
    unfolding heapInv_def
  proof (intro allI impI)
    fix i a assume "hTurningCircleLoop ?reg i = Some a"
    then have "a = p \<or> hTurningCircleLoop st i = Some a"
      by (auto simp: regs(4) s1(5) split: if_splits)
    then have "a < length (cells st) \<and> readable s1 a"
      using that p l1(2) s1(4) by (auto simp: heapInv_def)
    then show "a < length (cells ?reg) \<and> readable ?reg a"
      using len1 by (simp add: regs readable_def)
  qed
  have hrun: "processNode_h grow snk p st = Inr (if ?tags \<noteq> Map.empty then ?reg else ?sn)"
  proof (cases "?tags = Map.empty")
    case True
    then show ?thesis using s by (simp add: processNode_h_def Let_def load_updates)
  next
    case False
    then show ?thesis
      using s1(1) s unfolding net_def
      by (cases "?tags ''network:type'' = Some ''node_network''")
         (simp_all add: processNode_h_def Let_def load_updates bind_err_def l1(1))
  qed
  have vs: "elementStats_Add (nodeElementID ?e) (Tags ?e) (stats (abstract st)) = Some s"
    using s by (simp add: abstract_def)
  have vrun: "processNode snk ?e (abstract st) = Inr (abstract (if ?tags \<noteq> Map.empty then ?reg else ?sn))"
    if "heapInv st"
  proof (cases "?tags = Map.empty")
    case True
    have "nodes (abstract st) = hNodes st" by (simp add: abstract_def)
    with True show ?thesis using vs by (simp add: processNode_def Let_def abstract_register)
  next
    case False
    then show ?thesis
      using s1(7) that vs unfolding net_def
      by (cases "?tags ''network:type'' = Some ''node_network''")
         (simp_all add: processNode_def Let_def bind_err_def areg)
  qed
  show ?thesis
  proof (cases "?tags = Map.empty")
    case True
    then have nt: "\<not> isTurning ?e" and ns: "synthesized ?e (hNewNodeID st) = []"
      by (simp_all add: isTurning_def synthesized_def)
    have "heapInv ?sn" if "heapInv st"
      using that by (simp add: heapInv_def readable_def)
    with True hrun vrun nt ns show ?thesis
      by (auto simp: load_updates)
  next
    case False
    have "load ?reg = load s1"
      by (rule load_same) (simp_all add: regs)
    with False hrun vrun inv l1 s1 regs show ?thesis
      by auto
  qed
qed

text \<open>
  Claim C9. Let \<open>p\<close> point to a record of the store whose tag slice is valid, and let the
  sink accept every record. Whatever capacities the runtime chooses when a slice grows:
  \<^item> \<open>createNewNodeNetworkObject\<close> returns with every record that existed before, the
    record at \<open>p\<close> among them, unchanged in all its fields, the slice header of its tags
    included, and with every backing array that existed before unchanged; the tags of
    the records it writes are in arrays allocated during the call. So the value of the
    record at \<open>p\<close> is what it was.
  \<^item> The node case of \<open>main\<close>, for a record with an identifier from 0 to \<open>2^40 - 1\<close>, does
    the same, and when the tag map of the record has \<open>highway = turning_circle\<close> or
    \<open>highway = turning_loop\<close>, the table afterwards holds \<open>p\<close> under the identifier of the
    record, so that the table entry has the original tags. For a record whose element
    identifier has no type, the node case panics in \<open>stats.Add\<close>, with the records and the
    arrays as they were.
\<close>

theorem C9_source_unchanged:
  assumes "alwaysAccepts snk" "p < length (cells st)"
    and "validSlice (arrays st) (Tags (cells st ! p))"
  shows "(\<exists>st'. createNewNodeNetworkObject_h grow snk p st = Inr st' \<and>
            take (length (cells st)) (cells st') = cells st \<and>
            cells st' ! p = cells st ! p \<and>
            take (length (arrays st)) (arrays st') = arrays st \<and>
            load st' p = load st p) \<and>
         (idAccepted (ID (load st p)) \<longrightarrow>
           (\<exists>st'. processNode_h grow snk p st = Inr st' \<and>
              take (length (cells st)) (cells st') = cells st \<and>
              cells st' ! p = cells st ! p \<and>
              take (length (arrays st)) (arrays st') = arrays st \<and>
              load st' p = load st p \<and>
              hWriter st' = hWriter st @ synthesized (load st p) (hNewNodeID st) \<and>
              (TagMap (Tags (load st p)) ''highway'' = Some ''turning_circle'' \<or>
               TagMap (Tags (load st p)) ''highway'' = Some ''turning_loop'' \<longrightarrow>
                 hTurningCircleLoop st' (ID (load st p)) = Some p \<and>
                 Tags (load st' p) = contents (arrays st) (Tags (cells st ! p))))) \<and>
         (elementType (nodeElementID (load st p)) = None \<longrightarrow>
            processNode_h grow snk p st = Inl (Panic, st\<lparr>hNodes := hNodes st + 1\<rparr>))"
proof -
  have r: "readable st p"
    using assms(3) by (rule validSlice_readable)
  from createNewNodeNetworkObject_h_accept [OF assms(1,2) r, of grow]
  obtain s1 where 1: "createNewNodeNetworkObject_h grow snk p st = Inr s1"
    "take (length (cells st)) (cells s1) = cells st"
    "take (length (arrays st)) (arrays s1) = arrays st"
    "load s1 p = load st p"
    using assms(2) r by blast
  have c1: "cells s1 ! p = cells st ! p"
    using 1(2) assms(2) by (metis nth_take)
  have n: "\<exists>st'. processNode_h grow snk p st = Inr st' \<and>
              take (length (cells st)) (cells st') = cells st \<and>
              cells st' ! p = cells st ! p \<and>
              take (length (arrays st)) (arrays st') = arrays st \<and>
              load st' p = load st p \<and>
              hWriter st' = hWriter st @ synthesized (load st p) (hNewNodeID st) \<and>
              (TagMap (Tags (load st p)) ''highway'' = Some ''turning_circle'' \<or>
               TagMap (Tags (load st p)) ''highway'' = Some ''turning_loop'' \<longrightarrow>
                 hTurningCircleLoop st' (ID (load st p)) = Some p \<and>
                 Tags (load st' p) = contents (arrays st) (Tags (cells st ! p)))"
    if ida: "idAccepted (ID (load st p))"
  proof -
    from processNode_h_accept [OF assms(1,2) r ida, of grow]
    obtain s2 where 2: "processNode_h grow snk p st = Inr s2"
      "take (length (cells st)) (cells s2) = cells st"
      "take (length (arrays st)) (arrays s2) = arrays st"
      "load s2 p = load st p"
      "hTurningCircleLoop s2 =
         (if isTurning (load st p) then (hTurningCircleLoop st)(ID (load st p) \<mapsto> p)
          else hTurningCircleLoop st)"
      "hWriter s2 = hWriter st @ synthesized (load st p) (hNewNodeID st)"
      by blast
    have c2: "cells s2 ! p = cells st ! p"
      using 2(2) assms(2) by (metis nth_take)
    have t2: "hTurningCircleLoop s2 (ID (load st p)) = Some p \<and>
              Tags (load s2 p) = contents (arrays st) (Tags (cells st ! p))"
      if "TagMap (Tags (load st p)) ''highway'' = Some ''turning_circle'' \<or>
          TagMap (Tags (load st p)) ''highway'' = Some ''turning_loop''"
      using that 2(4,5) by (simp add: isTurning_def) (simp add: load_def Let_def)
    from 2 c2 t2 show ?thesis by blast
  qed
  have pn: "processNode_h grow snk p st = Inl (Panic, st\<lparr>hNodes := hNodes st + 1\<rparr>)"
    if "elementType (nodeElementID (load st p)) = None"
    using that by (rule processNode_h_panic)
  from 1 c1 n pn show ?thesis by blast
qed

text \<open>
  A store with one record, the node 77, which is a turning circle and a junction of the
  bicycle network; its three tags are in an array of capacity 4. The runtime gives every
  new array one element more than needed, so the second \<open>append\<close> writes in place. After
  the node step the record and its array are as before, the table points to the record,
  and the tags of the written record are in a second array.
\<close>

theorem C9_witness:
  "idAccepted (ID (load heapExample 0)) \<and>
   returned (processNode_h oneSlack acceptAll 0 heapExample) \<and>
   cells (finalState (processNode_h oneSlack acceptAll 0 heapExample)) =
     cells heapExample @ [(cells heapExample ! 0)\<lparr>ID := 0, Tags := emptySlice\<rparr>] \<and>
   arrays (finalState (processNode_h oneSlack acceptAll 0 heapExample)) =
     arrays heapExample @
       [[\<lparr>Key = ''node_network'', Value = ''node_bicycle''\<rparr>, \<lparr>Key = ''name'', Value = ''53''\<rparr>]] \<and>
   hWriter (finalState (processNode_h oneSlack acceptAll 0 heapExample)) =
     [exampleTurning [\<lparr>Key = ''node_network'', Value = ''node_bicycle''\<rparr>,
                      \<lparr>Key = ''name'', Value = ''53''\<rparr>]\<lparr>ID := 1000\<rparr>] \<and>
   hTurningCircleLoop (finalState (processNode_h oneSlack acceptAll 0 heapExample)) = [77 \<mapsto> 0]"
proof -
  have acc: "alwaysAccepts acceptAll" by simp
  have len: "0 < length (cells heapExample)"
    by (simp add: heapExample_def)
  have val: "validSlice (arrays heapExample) (Tags (cells heapExample ! 0))"
    by (simp add: heapExample_def validSlice_def)
  have ida: "idAccepted (ID (load heapExample 0))"
    by (simp add: idAccepted_def load_def heapExample_def)
  have tur: "TagMap (Tags (load heapExample 0)) ''highway'' = Some ''turning_circle''"
    by (simp add: load_def contents_def heapExample_def TagMap_def)
  from C9_source_unchanged [OF acc len val, of oneSlack] ida tur
  have "\<exists>st'. processNode_h oneSlack acceptAll 0 heapExample = Inr st' \<and>
      load st' 0 = load heapExample 0 \<and>
      hTurningCircleLoop st' (ID (load heapExample 0)) = Some 0"
    by blast
  then have ret: "returned (processNode_h oneSlack acceptAll 0 heapExample)"
    by auto
  let ?sn = "heapExample\<lparr>hNodes := hNodes heapExample + 1\<rparr>"
  from elementStats_Add_node [OF ida, of "Tags (load ?sn 0)" "hStats ?sn"]
  obtain s where s: "elementStats_Add (nodeElementID (load ?sn 0)) (Tags (load ?sn 0)) (hStats ?sn) = Some s"
    by (auto simp: load_updates)
  have run: "processNode_h oneSlack acceptAll 0 heapExample =
     Inr (heapExample
       \<lparr>cells := cells heapExample @ [(cells heapExample ! 0)\<lparr>ID := 0, Tags := emptySlice\<rparr>],
        arrays := arrays heapExample @
          [[\<lparr>Key = ''node_network'', Value = ''node_bicycle''\<rparr>, \<lparr>Key = ''name'', Value = ''53''\<rparr>]],
        hNewNodeID := 1001,
        hWriter := [exampleTurning [\<lparr>Key = ''node_network'', Value = ''node_bicycle''\<rparr>,
                                    \<lparr>Key = ''name'', Value = ''53''\<rparr>]\<lparr>ID := 1000\<rparr>],
        hNodes := 1, hStats := s, hJunctionPointsFound := 1, hTurningCirclePointsFound := 1,
        hTurningCircleLoop := [77 \<mapsto> 0]\<rparr>)"
    unfolding processNode_h_def Let_def s
    by (simp add: registerTurning_h_def createNewNodeNetworkObject_h_def networkBicycle_h_def
        networkHiking_h_def networkSingle_h_def appendAndWrite_h_def writeNewNodeObject_h_def
        appendToNode_def appendTag_def copySource_def emptySlice_def oneSlack_def acceptAll_def
        bind_err_def Let_def load_def contents_def heapExample_def TagMap_def exampleTurning_def)
  from ida ret show ?thesis
    by (simp add: run)
qed


end
